theory Spec2Isabelle
  imports Main "HOL-Library.Code_Target_Nat"
begin

section \<open>JavaScript values\<close>

text \<open>
  The facilitator's TRON services (\<^verbatim>\<open>tron-x402-service.ts\<close> and
  \<^verbatim>\<open>tron-settlement-service.ts\<close>) work on whatever \<^verbatim>\<open>JSON.parse\<close> returns: the
  cast \<^verbatim>\<open>as TronPaymentToken\<close> checks nothing at run time. The embedding therefore keeps
  a payment token as a JSON value and writes out what JavaScript does with it.

  A JavaScript string is a sequence of UTF-16 code units; it is modelled as a list of
  natural numbers (each below 65536). \<open>js\<close> turns an ASCII literal into such a string.
\<close>

type_synonym jsstring = "nat list"

definition js :: "string \<Rightarrow> jsstring" where
  "js s = map of_char s"

text \<open>
  A JSON number is kept as its source text: what the runtime makes of a number
  (\<^verbatim>\<open>ToString\<close>, \<^verbatim>\<open>ToBoolean\<close>, \<^verbatim>\<open>BigInt\<close>) is a parameter of the model, see
  \<open>runtime\<close> below. No field the services read is declared a number.
\<close>

datatype json =
    JNull
  | JBool bool
  | JNum jsstring
  | JStr jsstring
  | JArr "json list"
  | JObj "(jsstring \<times> json) list"

text \<open>A JavaScript value is a JSON value or \<^verbatim>\<open>undefined\<close> (\<open>None\<close>).\<close>

type_synonym jsval = "json option"

datatype exn_kind = TypeError | SyntaxError | RangeError | PlainError

text \<open>
  What a \<^verbatim>\<open>throw\<close> carries: an \<^verbatim>\<open>Error\<close> instance with its message, or any other
  value (client libraries also throw strings). \<open>Inl\<close> of a result is a throw (for an
  \<^verbatim>\<open>async\<close> function: a rejected promise).
\<close>

datatype exn = ErrorObj exn_kind jsstring | Thrown jsval

text \<open>\<^verbatim>\<open>error instanceof Error ? error.message : fallback\<close>\<close>

fun message_or :: "jsstring \<Rightarrow> exn \<Rightarrow> jsstring" where
  "message_or fallback (ErrorObj k m) = m"
| "message_or fallback (Thrown v) = fallback"

text \<open>The results of \<^verbatim>\<open>parseInt\<close>: an integer-valued double, an infinity or NaN.\<close>

datatype jsnumber = NaN | PosInf | NegInf | Fin int

record runtime =
  num_to_string :: "jsstring \<Rightarrow> jsstring"
  num_to_json :: "jsstring \<Rightarrow> jsstring"
  num_truthy :: "jsstring \<Rightarrow> bool"
  num_to_bigint :: "jsstring \<Rightarrow> exn + int"
  large_to_string :: "int \<Rightarrow> jsstring"
  unicode_lower :: "jsstring \<Rightarrow> jsstring"

subsection \<open>Printing\<close>

fun join_with :: "jsstring \<Rightarrow> jsstring list \<Rightarrow> jsstring" where
  "join_with sep [] = []"
| "join_with sep [x] = x"
| "join_with sep (x # y # ys) = x @ sep @ join_with sep (y # ys)"

text \<open>The decimal digits of a natural number, held as an \<open>int\<close>.\<close>

function dec_digits :: "int \<Rightarrow> jsstring" where
  "dec_digits n = (if n < 10 then [48 + nat n] else dec_digits (n div 10) @ [48 + nat (n mod 10)])"
  by pat_completeness auto
termination
  by (relation "measure nat") auto

text \<open>\<^verbatim>\<open>BigInt.prototype.toString\<close>: decimal digits, a minus sign when negative.\<close>

definition bigint_to_string :: "int \<Rightarrow> jsstring" where
  "bigint_to_string i = (if i < 0 then 45 # dec_digits (- i) else dec_digits i)"

text \<open>
  \<^verbatim>\<open>Number::toString\<close> on the results of \<^verbatim>\<open>parseInt\<close>. Below \<open>2^53\<close> every integer is a
  double of its own and prints as its digits. From there on JavaScript prints the shortest
  digits that denote the same double (and exponent notation from \<open>10^21\<close>): that text is
  left to the runtime.
\<close>

definition number_to_string :: "runtime \<Rightarrow> jsnumber \<Rightarrow> jsstring" where
  "number_to_string rt x =
     (case x of
        NaN \<Rightarrow> js ''NaN''
      | PosInf \<Rightarrow> js ''Infinity''
      | NegInf \<Rightarrow> js ''-Infinity''
      | Fin i \<Rightarrow> if \<bar>i\<bar> < 2 ^ 53 then bigint_to_string i else large_to_string rt i)"

text \<open>
  \<^verbatim>\<open>ToString\<close> of a value that \<^verbatim>\<open>JSON.parse\<close> made. An array prints its elements joined
  by commas, with \<^verbatim>\<open>null\<close> elements empty. An object is converted by its \<^verbatim>\<open>toString\<close>
  method: the inherited one prints \<^verbatim>\<open>[object Object]\<close>, but an own property of that name
  hides it, and since no JSON value is callable (and the inherited \<^verbatim>\<open>valueOf\<close> returns
  the object itself, an own one is not callable either) the conversion then throws a
  TypeError. \<open>printable\<close> says that no such object has to be printed.
\<close>

fun printable :: "json \<Rightarrow> bool" where
  "printable (JArr xs) = list_all printable xs"
| "printable (JObj kvs) = (map_of kvs (js ''toString'') = None)"
| "printable _ = True"

fun json_to_string :: "runtime \<Rightarrow> json \<Rightarrow> jsstring" where
  "json_to_string rt JNull = js ''null''"
| "json_to_string rt (JBool b) = (if b then js ''true'' else js ''false'')"
| "json_to_string rt (JNum lexeme) = num_to_string rt lexeme"
| "json_to_string rt (JStr s) = s"
| "json_to_string rt (JArr xs) =
     join_with (js '','') (map (\<lambda>x. if x = JNull then [] else json_to_string rt x) xs)"
| "json_to_string rt (JObj kvs) = js ''[object Object]''"

definition not_primitive :: exn where
  "not_primitive = ErrorObj TypeError (js ''Cannot convert object to primitive value'')"

definition to_string :: "runtime \<Rightarrow> jsval \<Rightarrow> exn + jsstring" where
  "to_string rt v =
     (case v of
        None \<Rightarrow> Inr (js ''undefined'')
      | Some j \<Rightarrow> if printable j then Inr (json_to_string rt j) else Inl not_primitive)"

text \<open>\<^verbatim>\<open>ToBoolean\<close>\<close>

definition truthy :: "runtime \<Rightarrow> jsval \<Rightarrow> bool" where
  "truthy rt v =
     (case v of
        None \<Rightarrow> False
      | Some JNull \<Rightarrow> False
      | Some (JBool b) \<Rightarrow> b
      | Some (JNum lexeme) \<Rightarrow> num_truthy rt lexeme
      | Some (JStr s) \<Rightarrow> s \<noteq> []
      | Some (JArr xs) \<Rightarrow> True
      | Some (JObj kvs) \<Rightarrow> True)"

text \<open>
  Reading a property \<^verbatim>\<open>v.k\<close>, for the field names the services read (none of them is
  inherited from a prototype): \<^verbatim>\<open>undefined\<close> and \<^verbatim>\<open>null\<close> throw a TypeError (V8's
  message), an object gives the field or \<^verbatim>\<open>undefined\<close>, every other value gives
  \<^verbatim>\<open>undefined\<close>.
\<close>

definition get :: "jsval \<Rightarrow> string \<Rightarrow> exn + jsval" where
  "get v k =
     (case v of
        None \<Rightarrow> Inl (ErrorObj TypeError
                 (js (''Cannot read properties of undefined (reading '' @ [CHR 0x27] @ k @ [CHR 0x27] @ '')'')))
      | Some JNull \<Rightarrow> Inl (ErrorObj TypeError
                 (js (''Cannot read properties of null (reading '' @ [CHR 0x27] @ k @ [CHR 0x27] @ '')'')))
      | Some (JObj kvs) \<Rightarrow> Inr (map_of kvs (js k))
      | Some _ \<Rightarrow> Inr None)"

text \<open>\<^verbatim>\<open>Object.keys(v).length\<close> for a truthy value.\<close>

definition keys_count :: "json \<Rightarrow> nat" where
  "keys_count j =
     (case j of
        JObj kvs \<Rightarrow> length (remdups (map fst kvs))
      | JArr xs \<Rightarrow> length xs
      | JStr s \<Rightarrow> length s
      | _ \<Rightarrow> 0)"

section \<open>Numbers from strings\<close>

text \<open>\<^verbatim>\<open>StrWhiteSpaceChar\<close>: the white space and line terminators that \<^verbatim>\<open>BigInt\<close> and
  \<^verbatim>\<open>parseInt\<close> trim.\<close>

definition is_space :: "nat \<Rightarrow> bool" where
  "is_space c =
     (c = 9 \<or> c = 10 \<or> c = 11 \<or> c = 12 \<or> c = 13 \<or> c = 32 \<or> c = 160 \<or> c = 5760
      \<or> (8192 \<le> c \<and> c \<le> 8202) \<or> c = 8232 \<or> c = 8233 \<or> c = 8239 \<or> c = 8287
      \<or> c = 12288 \<or> c = 65279)"

definition trim :: "jsstring \<Rightarrow> jsstring" where
  "trim s = rev (dropWhile is_space (rev (dropWhile is_space s)))"

definition digit_val :: "nat \<Rightarrow> nat \<Rightarrow> nat option" where
  "digit_val base c =
     (let d = (if 48 \<le> c \<and> c \<le> 57 then c - 48
               else if 97 \<le> c \<and> c \<le> 122 then c - 87
               else if 65 \<le> c \<and> c \<le> 90 then c - 55
               else base)
      in if d < base then Some d else None)"

fun digits_acc :: "nat \<Rightarrow> int \<Rightarrow> jsstring \<Rightarrow> int option" where
  "digits_acc base acc [] = Some acc"
| "digits_acc base acc (c # cs) =
     (case digit_val base c of
        None \<Rightarrow> None
      | Some d \<Rightarrow> digits_acc base (acc * int base + int d) cs)"

text \<open>The value of a non-empty string of digits in a base; \<open>None\<close> for anything else.\<close>

definition digits_value :: "nat \<Rightarrow> jsstring \<Rightarrow> int option" where
  "digits_value base s = (if s = [] then None else digits_acc base 0 s)"

text \<open>
  \<^verbatim>\<open>StringToBigInt\<close>: the trimmed text is empty (zero), decimal digits with an optional
  sign, or unsigned digits after \<^verbatim>\<open>0x\<close>, \<^verbatim>\<open>0o\<close> or \<^verbatim>\<open>0b\<close>.
\<close>

definition StringToBigInt :: "jsstring \<Rightarrow> int option" where
  "StringToBigInt s =
     (case trim s of
        [] \<Rightarrow> Some 0
      | c # r \<Rightarrow>
          if c = 43 then digits_value 10 r
          else if c = 45 then map_option uminus (digits_value 10 r)
          else if c = 48 \<and> r \<noteq> [] \<and> (hd r = 120 \<or> hd r = 88) then digits_value 16 (tl r)
          else if c = 48 \<and> r \<noteq> [] \<and> (hd r = 111 \<or> hd r = 79) then digits_value 8 (tl r)
          else if c = 48 \<and> r \<noteq> [] \<and> (hd r = 98 \<or> hd r = 66) then digits_value 2 (tl r)
          else digits_value 10 (c # r))"

text \<open>
  \<^verbatim>\<open>BigInt(v)\<close>: \<^verbatim>\<open>undefined\<close> and \<^verbatim>\<open>null\<close> throw a TypeError, a string that is no
  integer literal a SyntaxError; arrays and objects are converted through their string
  (\<^verbatim>\<open>valueOf\<close> gives no primitive), which may throw.
\<close>

definition BigInt :: "runtime \<Rightarrow> jsval \<Rightarrow> exn + int" where
  "BigInt rt v =
     (case v of
        None \<Rightarrow> Inl (ErrorObj TypeError (js ''Cannot convert undefined to a BigInt''))
      | Some JNull \<Rightarrow> Inl (ErrorObj TypeError (js ''Cannot convert null to a BigInt''))
      | Some (JBool b) \<Rightarrow> Inr (if b then 1 else 0)
      | Some (JNum lexeme) \<Rightarrow> num_to_bigint rt lexeme
      | Some j \<Rightarrow>
          (case to_string rt (Some j) of
             Inl e \<Rightarrow> Inl e
           | Inr s \<Rightarrow>
               (case StringToBigInt s of
                  None \<Rightarrow> Inl (ErrorObj SyntaxError (js ''Cannot convert '' @ s @ js '' to a BigInt''))
                | Some i \<Rightarrow> Inr i)))"

function bit_length :: "int \<Rightarrow> nat" where
  "bit_length n = (if n \<le> 0 then 0 else Suc (bit_length (n div 2)))"
  by pat_completeness auto
termination
  by (relation "measure nat") auto

text \<open>
  The double nearest to a natural number, held as an \<open>int\<close> (round to nearest, ties
  to even, 53 significant bits); \<open>None\<close> is \<^verbatim>\<open>Infinity\<close>.
\<close>

definition to_double :: "int \<Rightarrow> int option" where
  "to_double n =
     (if bit_length n \<le> 53 then Some n
      else
        let e = bit_length n - 53;
            q = n div 2 ^ e;
            r = n mod 2 ^ e;
            h = 2 ^ (e - 1);
            q' = (if h < r \<or> (r = h \<and> odd q) then q + 1 else q);
            m = q' * 2 ^ e
        in if 2 ^ 1024 \<le> m then None else Some m)"

text \<open>
  \<^verbatim>\<open>parseInt(v, 10)\<close>: the string of \<open>v\<close> (the conversion may throw), leading white space
  dropped, an optional sign,
  then the longest run of decimal digits (NaN when there is none), rounded to a double.
  With the radix given as 10 a \<^verbatim>\<open>0x\<close> prefix is not recognised: parsing stops after the
  \<open>0\<close>. (An engine may replace the digits after the 20th by zeros before it rounds; the
  results are the same doubles up to that choice.)
\<close>

definition is_digit :: "nat \<Rightarrow> bool" where
  "is_digit c = (48 \<le> c \<and> c \<le> 57)"

definition parse_decimal :: "jsstring \<Rightarrow> jsnumber" where
  "parse_decimal text =
     (let s = dropWhile is_space text;
          negative = (s \<noteq> [] \<and> hd s = 45);
          s' = (if s \<noteq> [] \<and> (hd s = 43 \<or> hd s = 45) then tl s else s)
      in case digits_value 10 (takeWhile is_digit s') of
           None \<Rightarrow> NaN
         | Some n \<Rightarrow>
             (case to_double n of
                None \<Rightarrow> if negative then NegInf else PosInf
              | Some m \<Rightarrow> Fin (if negative then - m else m)))"

definition parseInt :: "runtime \<Rightarrow> jsval \<Rightarrow> exn + jsnumber" where
  "parseInt rt v = (case to_string rt v of Inl e \<Rightarrow> Inl e | Inr text \<Rightarrow> Inr (parse_decimal text))"

text \<open>\<^verbatim>\<open>a < b\<close> and \<^verbatim>\<open>a >= b\<close> for an integer \<open>a\<close>: both are false against NaN.\<close>

definition int_less :: "int \<Rightarrow> jsnumber \<Rightarrow> bool" where
  "int_less a b = (case b of NaN \<Rightarrow> False | PosInf \<Rightarrow> True | NegInf \<Rightarrow> False | Fin i \<Rightarrow> a < i)"

definition int_ge :: "int \<Rightarrow> jsnumber \<Rightarrow> bool" where
  "int_ge a b = (case b of NaN \<Rightarrow> False | PosInf \<Rightarrow> False | NegInf \<Rightarrow> True | Fin i \<Rightarrow> i \<le> a)"

section \<open>Buffers: Base64 and UTF-8\<close>

text \<open>
  \<^verbatim>\<open>Buffer.from(s, 'base64')\<close> never throws: Node's decoder reads the low byte of every
  code unit, skips the bytes outside the alphabet (both \<^verbatim>\<open>+/\<close> and \<^verbatim>\<open>-_\<close> are read) and
  stops at the first \<^verbatim>\<open>=\<close>.
\<close>

definition unbase64 :: "nat \<Rightarrow> nat option" where
  "unbase64 c =
     (if 65 \<le> c \<and> c \<le> 90 then Some (c - 65)
      else if 97 \<le> c \<and> c \<le> 122 then Some (c - 71)
      else if 48 \<le> c \<and> c \<le> 57 then Some (c + 4)
      else if c = 43 \<or> c = 45 then Some 62
      else if c = 47 \<or> c = 95 then Some 63
      else None)"

definition base64_char :: "nat \<Rightarrow> nat" where
  "base64_char v =
     (if v < 26 then v + 65
      else if v < 52 then v + 71
      else if v < 62 then v - 4
      else if v = 62 then 43
      else 47)"

fun sextets :: "jsstring \<Rightarrow> nat list" where
  "sextets [] = []"
| "sextets (c # cs) =
     (if c mod 256 = 61 then []
      else case unbase64 (c mod 256) of None \<Rightarrow> sextets cs | Some v \<Rightarrow> v # sextets cs)"

fun sextet_bytes :: "nat list \<Rightarrow> nat list" where
  "sextet_bytes (a # b # c # d # rest) =
     (a * 4 + b div 16) # ((b mod 16) * 16 + c div 4) # ((c mod 4) * 64 + d) # sextet_bytes rest"
| "sextet_bytes [a, b, c] = [a * 4 + b div 16, (b mod 16) * 16 + c div 4]"
| "sextet_bytes [a, b] = [a * 4 + b div 16]"
| "sextet_bytes _ = []"

definition from_base64 :: "jsstring \<Rightarrow> nat list" where
  "from_base64 s = sextet_bytes (sextets s)"

text \<open>\<^verbatim>\<open>buf.toString('base64')\<close>\<close>

fun to_base64 :: "nat list \<Rightarrow> jsstring" where
  "to_base64 (a # b # c # rest) =
     base64_char (a div 4) # base64_char ((a mod 4) * 16 + b div 16)
       # base64_char ((b mod 16) * 4 + c div 64) # base64_char (c mod 64) # to_base64 rest"
| "to_base64 [a, b] =
     [base64_char (a div 4), base64_char ((a mod 4) * 16 + b div 16), base64_char ((b mod 16) * 4), 61]"
| "to_base64 [a] = [base64_char (a div 4), base64_char ((a mod 4) * 16), 61, 61]"
| "to_base64 [] = []"

definition high_surrogate :: "nat \<Rightarrow> bool" where
  "high_surrogate u = (55296 \<le> u \<and> u < 56320)"

definition low_surrogate :: "nat \<Rightarrow> bool" where
  "low_surrogate u = (56320 \<le> u \<and> u < 57344)"

text \<open>
  \<^verbatim>\<open>Buffer.from(s)\<close>: the UTF-8 bytes of a string. A surrogate pair is one code point of
  four bytes; a surrogate on its own is written as U+FFFD.
\<close>

definition utf8_4 :: "nat \<Rightarrow> nat list" where
  "utf8_4 cp = [240 + cp div 262144, 128 + (cp div 4096) mod 64, 128 + (cp div 64) mod 64, 128 + cp mod 64]"

definition utf8_3 :: "nat \<Rightarrow> nat list" where
  "utf8_3 u = [224 + u div 4096, 128 + (u div 64) mod 64, 128 + u mod 64]"

fun utf8_encode :: "jsstring \<Rightarrow> nat list" where
  "utf8_encode [] = []"
| "utf8_encode (u # us) =
     (if u < 128 then u # utf8_encode us
      else if u < 2048 then (192 + u div 64) # (128 + u mod 64) # utf8_encode us
      else if high_surrogate u then
        (case us of
           [] \<Rightarrow> [239, 191, 189]
         | l # rest \<Rightarrow>
             if low_surrogate l
             then utf8_4 (65536 + (u - 55296) * 1024 + (l - 56320)) @ utf8_encode rest
             else [239, 191, 189] @ utf8_encode us)
      else if low_surrogate u then [239, 191, 189] @ utf8_encode us
      else utf8_3 u @ utf8_encode us)"

text \<open>
  \<^verbatim>\<open>buf.toString('utf-8')\<close>: the decoder of the Encoding Standard. An ill-formed
  sequence gives one U+FFFD (65533) and decoding goes on at the byte that broke it; a code
  point from U+10000 on is a surrogate pair.
\<close>

definition continuation :: "nat \<Rightarrow> nat \<Rightarrow> nat \<Rightarrow> bool" where
  "continuation lower upper b = (lower \<le> b \<and> b \<le> upper)"

definition utf16_units :: "nat \<Rightarrow> jsstring" where
  "utf16_units cp =
     (if cp < 65536 then [cp]
      else [55296 + (cp - 65536) div 1024, 56320 + (cp - 65536) mod 1024])"

fun utf8_decode :: "nat list \<Rightarrow> jsstring" where
  "utf8_decode [] = []"
| "utf8_decode (b # bs) =
     (if b < 128 then b # utf8_decode bs
      else if 194 \<le> b \<and> b \<le> 223 then
        (case bs of
           [] \<Rightarrow> [65533]
         | c1 # r1 \<Rightarrow>
             if continuation 128 191 c1
             then ((b - 192) * 64 + (c1 - 128)) # utf8_decode r1
             else 65533 # utf8_decode bs)
      else if 224 \<le> b \<and> b \<le> 239 then
        (case bs of
           [] \<Rightarrow> [65533]
         | c1 # r1 \<Rightarrow>
             if continuation (if b = 224 then 160 else 128) (if b = 237 then 159 else 191) c1
             then (case r1 of
                     [] \<Rightarrow> [65533]
                   | c2 # r2 \<Rightarrow>
                       if continuation 128 191 c2
                       then ((b - 224) * 4096 + (c1 - 128) * 64 + (c2 - 128)) # utf8_decode r2
                       else 65533 # utf8_decode r1)
             else 65533 # utf8_decode bs)
      else if 240 \<le> b \<and> b \<le> 244 then
        (case bs of
           [] \<Rightarrow> [65533]
         | c1 # r1 \<Rightarrow>
             if continuation (if b = 240 then 144 else 128) (if b = 244 then 143 else 191) c1
             then (case r1 of
                     [] \<Rightarrow> [65533]
                   | c2 # r2 \<Rightarrow>
                       if continuation 128 191 c2
                       then (case r2 of
                               [] \<Rightarrow> [65533]
                             | c3 # r3 \<Rightarrow>
                                 if continuation 128 191 c3
                                 then utf16_units ((b - 240) * 262144 + (c1 - 128) * 4096
                                                   + (c2 - 128) * 64 + (c3 - 128))
                                      @ utf8_decode r3
                                 else 65533 # utf8_decode r2)
                       else 65533 # utf8_decode r1)
             else 65533 # utf8_decode bs)
      else 65533 # utf8_decode bs)"

section \<open>JSON\<close>

subsection \<open>\<^verbatim>\<open>JSON.parse\<close>\<close>

definition json_ws :: "nat \<Rightarrow> bool" where
  "json_ws c = (c = 32 \<or> c = 9 \<or> c = 10 \<or> c = 13)"

definition skip_ws :: "jsstring \<Rightarrow> jsstring" where
  "skip_ws cs = dropWhile json_ws cs"

definition hex4 :: "nat \<Rightarrow> nat \<Rightarrow> nat \<Rightarrow> nat \<Rightarrow> nat option" where
  "hex4 a b c d =
     (case (digit_val 16 a, digit_val 16 b, digit_val 16 c, digit_val 16 d) of
        (Some w, Some x, Some y, Some z) \<Rightarrow> Some (((w * 16 + x) * 16 + y) * 16 + z)
      | _ \<Rightarrow> None)"

definition simple_escape :: "nat \<Rightarrow> nat option" where
  "simple_escape e =
     (if e = 34 then Some 34
      else if e = 92 then Some 92
      else if e = 47 then Some 47
      else if e = 98 then Some 8
      else if e = 102 then Some 12
      else if e = 110 then Some 10
      else if e = 114 then Some 13
      else if e = 116 then Some 9
      else None)"

definition cons_fst :: "nat \<Rightarrow> (jsstring \<times> jsstring) option \<Rightarrow> (jsstring \<times> jsstring) option" where
  "cons_fst u r = map_option (\<lambda>(s, rest). (u # s, rest)) r"

text \<open>
  The characters of a string after its opening quote, up to the closing quote: the
  string's value and the text after it. A control character below U+0020 must be escaped.
\<close>

fun string_body :: "jsstring \<Rightarrow> (jsstring \<times> jsstring) option" where
  "string_body [] = None"
| "string_body (c # cs) =
     (if c = 34 then Some ([], cs)
      else if c = 92 then
        (case cs of
           [] \<Rightarrow> None
         | e # r \<Rightarrow>
             if e = 117 then
               (case r of
                  h1 # h2 # h3 # h4 # r' \<Rightarrow>
                    (case hex4 h1 h2 h3 h4 of
                       None \<Rightarrow> None
                     | Some u \<Rightarrow> cons_fst u (string_body r'))
                | _ \<Rightarrow> None)
             else
               (case simple_escape e of
                  None \<Rightarrow> None
                | Some u \<Rightarrow> cons_fst u (string_body r)))
      else if c < 32 then None
      else cons_fst c (string_body cs))"

text \<open>
  A number: \<^verbatim>\<open>-?(0|[1-9][0-9]*)(\.[0-9]+)?([eE][+-]?[0-9]+)?\<close>. The lexeme and the text
  after it.
\<close>

definition scan_int :: "jsstring \<Rightarrow> (jsstring \<times> jsstring) option" where
  "scan_int cs =
     (case cs of
        [] \<Rightarrow> None
      | c # r \<Rightarrow>
          if c = 48 then Some ([48], r)
          else if 49 \<le> c \<and> c \<le> 57 then Some (c # takeWhile is_digit r, dropWhile is_digit r)
          else None)"

definition scan_frac :: "jsstring \<Rightarrow> (jsstring \<times> jsstring) option" where
  "scan_frac cs =
     (case cs of
        [] \<Rightarrow> Some ([], cs)
      | c # r \<Rightarrow>
          if c = 46 then
            (if takeWhile is_digit r = [] then None
             else Some (c # takeWhile is_digit r, dropWhile is_digit r))
          else Some ([], cs))"

definition scan_exp :: "jsstring \<Rightarrow> (jsstring \<times> jsstring) option" where
  "scan_exp cs =
     (case cs of
        [] \<Rightarrow> Some ([], cs)
      | c # r \<Rightarrow>
          if c = 101 \<or> c = 69 then
            (let sign = (if r \<noteq> [] \<and> (hd r = 43 \<or> hd r = 45) then [hd r] else []);
                 r' = drop (length sign) r
             in if takeWhile is_digit r' = [] then None
                else Some (c # sign @ takeWhile is_digit r', dropWhile is_digit r'))
          else Some ([], cs))"

definition scan_number :: "jsstring \<Rightarrow> (jsstring \<times> jsstring) option" where
  "scan_number cs =
     (let minus = (if cs \<noteq> [] \<and> hd cs = 45 then [45] else [])
      in case scan_int (drop (length minus) cs) of
           None \<Rightarrow> None
         | Some (i, r1) \<Rightarrow>
             (case scan_frac r1 of
                None \<Rightarrow> None
              | Some (f, r2) \<Rightarrow>
                  (case scan_exp r2 of
                     None \<Rightarrow> None
                   | Some (e, r3) \<Rightarrow> Some (minus @ i @ f @ e, r3))))"

definition strip_prefix :: "jsstring \<Rightarrow> jsstring \<Rightarrow> jsstring option" where
  "strip_prefix p cs = (if take (length p) cs = p then Some (drop (length p) cs) else None)"

text \<open>
  Defining a property: a key that is already there keeps its place and takes the new
  value, a new key goes last. (JavaScript lists integer-like keys first; the services look
  fields up by name, which does not depend on the order.)
\<close>

fun put_property :: "(jsstring \<times> json) list \<Rightarrow> jsstring \<Rightarrow> json \<Rightarrow> (jsstring \<times> json) list" where
  "put_property [] k v = [(k, v)]"
| "put_property ((k', v') # kvs) k v =
     (if k' = k then (k, v) # kvs else (k', v') # put_property kvs k v)"

definition object_of :: "(jsstring \<times> json) list \<Rightarrow> json" where
  "object_of members = JObj (foldl (\<lambda>acc (k, v). put_property acc k v) [] members)"

datatype 'a parsed = Parsed 'a jsstring | Malformed | NoFuel

text \<open>
  The recursive descent over values, the elements of an array (after \<^verbatim>\<open>[\<close> or a comma)
  and the members of an object (after \<^verbatim>\<open>{\<close> or a comma). Every call takes one unit of
  fuel; \<open>JSON_parse\<close> gives more than any text can use (\<open>parse_value_fuel\<close> below).
\<close>

fun parse_value :: "nat \<Rightarrow> jsstring \<Rightarrow> json parsed"
  and parse_elements :: "nat \<Rightarrow> jsstring \<Rightarrow> json list parsed"
  and parse_members :: "nat \<Rightarrow> jsstring \<Rightarrow> (jsstring \<times> json) list parsed"
where
  "parse_value 0 cs = NoFuel"
| "parse_value (Suc n) cs =
     (case skip_ws cs of
        [] \<Rightarrow> Malformed
      | c # r \<Rightarrow>
          if c = 123 then
            (case skip_ws r of
               [] \<Rightarrow> Malformed
             | c' # r' \<Rightarrow>
                 if c' = 125 then Parsed (JObj []) r'
                 else (case parse_members n (c' # r') of
                         Parsed members rest \<Rightarrow> Parsed (object_of members) rest
                       | Malformed \<Rightarrow> Malformed
                       | NoFuel \<Rightarrow> NoFuel))
          else if c = 91 then
            (case skip_ws r of
               [] \<Rightarrow> Malformed
             | c' # r' \<Rightarrow>
                 if c' = 93 then Parsed (JArr []) r'
                 else (case parse_elements n (c' # r') of
                         Parsed elements rest \<Rightarrow> Parsed (JArr elements) rest
                       | Malformed \<Rightarrow> Malformed
                       | NoFuel \<Rightarrow> NoFuel))
          else if c = 34 then
            (case string_body r of
               None \<Rightarrow> Malformed
             | Some (s, rest) \<Rightarrow> Parsed (JStr s) rest)
          else if c = 45 \<or> is_digit c then
            (case scan_number (c # r) of
               None \<Rightarrow> Malformed
             | Some (lexeme, rest) \<Rightarrow> Parsed (JNum lexeme) rest)
          else
            (case strip_prefix (js ''true'') (c # r) of
               Some rest \<Rightarrow> Parsed (JBool True) rest
             | None \<Rightarrow>
                 (case strip_prefix (js ''false'') (c # r) of
                    Some rest \<Rightarrow> Parsed (JBool False) rest
                  | None \<Rightarrow>
                      (case strip_prefix (js ''null'') (c # r) of
                         Some rest \<Rightarrow> Parsed JNull rest
                       | None \<Rightarrow> Malformed))))"
| "parse_elements 0 cs = NoFuel"
| "parse_elements (Suc n) cs =
     (case parse_value n cs of
        Parsed v r \<Rightarrow>
          (case skip_ws r of
             [] \<Rightarrow> Malformed
           | c # r' \<Rightarrow>
               if c = 44 then
                 (case parse_elements n r' of
                    Parsed vs rest \<Rightarrow> Parsed (v # vs) rest
                  | Malformed \<Rightarrow> Malformed
                  | NoFuel \<Rightarrow> NoFuel)
               else if c = 93 then Parsed [v] r'
               else Malformed)
      | Malformed \<Rightarrow> Malformed
      | NoFuel \<Rightarrow> NoFuel)"
| "parse_members 0 cs = NoFuel"
| "parse_members (Suc n) cs =
     (case skip_ws cs of
        [] \<Rightarrow> Malformed
      | q # r \<Rightarrow>
          if q = 34 then
            (case string_body r of
               None \<Rightarrow> Malformed
             | Some (k, r1) \<Rightarrow>
                 (case skip_ws r1 of
                    [] \<Rightarrow> Malformed
                  | colon # r2 \<Rightarrow>
                      if colon = 58 then
                        (case parse_value n r2 of
                           Parsed v r3 \<Rightarrow>
                             (case skip_ws r3 of
                                [] \<Rightarrow> Malformed
                              | c # r4 \<Rightarrow>
                                  if c = 44 then
                                    (case parse_members n r4 of
                                       Parsed kvs rest \<Rightarrow> Parsed ((k, v) # kvs) rest
                                     | Malformed \<Rightarrow> Malformed
                                     | NoFuel \<Rightarrow> NoFuel)
                                  else if c = 125 then Parsed [(k, v)] r4
                                  else Malformed)
                         | Malformed \<Rightarrow> Malformed
                         | NoFuel \<Rightarrow> NoFuel)
                      else Malformed))
          else Malformed)"

text \<open>
  \<^verbatim>\<open>JSON.parse(text)\<close>: a value, white space around it and nothing else; a SyntaxError
  otherwise. (Nesting deep enough to exhaust the engine's stack is outside the model.)
\<close>

definition JSON_parse :: "jsstring \<Rightarrow> exn + json" where
  "JSON_parse text =
     (case parse_value (2 * length text + 2) text of
        Parsed v rest \<Rightarrow>
          if skip_ws rest = [] then Inr v
          else Inl (ErrorObj SyntaxError (js ''Unexpected non-whitespace character after JSON''))
      | Malformed \<Rightarrow> Inl (ErrorObj SyntaxError (js ''Unexpected token in JSON''))
      | NoFuel \<Rightarrow> Inl (ErrorObj SyntaxError (js ''Unexpected token in JSON'')))"

subsection \<open>\<^verbatim>\<open>JSON.stringify\<close>\<close>

definition hex_digit :: "nat \<Rightarrow> nat" where
  "hex_digit d = (if d < 10 then 48 + d else 87 + d)"

text \<open>\<^verbatim>\<open>\uXXXX\<close> with lower-case digits.\<close>

definition unicode_escape :: "nat \<Rightarrow> jsstring" where
  "unicode_escape u =
     [92, 117, hex_digit (u div 4096), hex_digit ((u div 256) mod 16),
      hex_digit ((u div 16) mod 16), hex_digit (u mod 16)]"

text \<open>
  \<^verbatim>\<open>QuoteJSONString\<close> without the quotes: the short escapes, \<^verbatim>\<open>\u00XX\<close> for the other
  control characters, and (well-formed \<^verbatim>\<open>JSON.stringify\<close>) an escape for a surrogate
  that has no partner.
\<close>

fun quote_body :: "jsstring \<Rightarrow> jsstring" where
  "quote_body [] = []"
| "quote_body (c # cs) =
     (if c = 8 then [92, 98] @ quote_body cs
      else if c = 9 then [92, 116] @ quote_body cs
      else if c = 10 then [92, 110] @ quote_body cs
      else if c = 12 then [92, 102] @ quote_body cs
      else if c = 13 then [92, 114] @ quote_body cs
      else if c = 34 then [92, 34] @ quote_body cs
      else if c = 92 then [92, 92] @ quote_body cs
      else if c < 32 then unicode_escape c @ quote_body cs
      else if high_surrogate c then
        (case cs of
           [] \<Rightarrow> unicode_escape c
         | l # rest \<Rightarrow>
             if low_surrogate l then c # l # quote_body rest
             else unicode_escape c @ quote_body cs)
      else if low_surrogate c then unicode_escape c @ quote_body cs
      else c # quote_body cs)"

definition quote :: "jsstring \<Rightarrow> jsstring" where
  "quote s = [34] @ quote_body s @ [34]"

text \<open>
  \<^verbatim>\<open>JSON.stringify(v)\<close> without indentation. The text of a number is the runtime's
  (\<open>num_to_json\<close>). No JSON value has a callable \<^verbatim>\<open>toJSON\<close>.
\<close>

fun JSON_stringify :: "runtime \<Rightarrow> json \<Rightarrow> jsstring" where
  "JSON_stringify rt JNull = js ''null''"
| "JSON_stringify rt (JBool b) = (if b then js ''true'' else js ''false'')"
| "JSON_stringify rt (JNum lexeme) = num_to_json rt lexeme"
| "JSON_stringify rt (JStr s) = quote s"
| "JSON_stringify rt (JArr xs) = [91] @ join_with [44] (map (JSON_stringify rt) xs) @ [93]"
| "JSON_stringify rt (JObj kvs) =
     [123] @ join_with [44] (map (\<lambda>(k, v). quote k @ [58] @ JSON_stringify rt v) kvs) @ [125]"

section \<open>The world outside the services\<close>

text \<open>
  The TronWeb client is not part of the repository: each of its calls is a parameter,
  returning a value or throwing. \<open>getTransactionInfo tx i\<close> is the answer to the poll
  after \<open>i\<close> earlier polls of the same transaction.
\<close>

record tronweb =
  toHex :: "jsstring \<Rightarrow> exn + jsstring"
  verifyMessage :: "jsstring \<Rightarrow> jsval \<Rightarrow> exn + jsval"
  address_toHex :: "jsstring \<Rightarrow> exn + jsstring"
  contract :: "jsval \<Rightarrow> exn + unit"
  transfer_send :: "jsval \<Rightarrow> jsval \<Rightarrow> jsval \<Rightarrow> exn + jsval"
  sendTransaction :: "jsval \<Rightarrow> jsnumber \<Rightarrow> exn + jsval"
  getTransactionInfo :: "jsval \<Rightarrow> nat \<Rightarrow> exn + jsval"

text \<open>
  \<open>wallet_configured\<close>: \<^verbatim>\<open>tronWalletServiceInstance !== null\<close>; \<open>now_ms\<close>: \<^verbatim>\<open>Date.now()\<close>.
\<close>

record env =
  rt :: runtime
  tronWeb :: tronweb
  wallet_configured :: bool
  now_ms :: int

text \<open>The calls that reach the chain client during a settlement, in order.\<close>

datatype event =
    Delay nat
  | ContractAt jsval
  | TransferSend jsval jsval jsval
  | SendTransaction jsval jsnumber
  | GetTransactionInfo jsval nat

fun is_submission :: "event \<Rightarrow> bool" where
  "is_submission (TransferSend token recipient amount) = True"
| "is_submission (SendTransaction recipient amount) = True"
| "is_submission _ = False"

fun is_poll :: "event \<Rightarrow> bool" where
  "is_poll (GetTransactionInfo tx i) = True"
| "is_poll _ = False"

definition and_then :: "exn + 'a \<Rightarrow> ('a \<Rightarrow> exn + 'b) \<Rightarrow> exn + 'b" where
  "and_then m f = (case m of Inl e \<Rightarrow> Inl e | Inr x \<Rightarrow> f x)"

text \<open>
  One call inside a settlement: the events it leaves, then the rest of the function on
  its value, or the exception with the events so far.
\<close>

definition step :: "event list \<Rightarrow> exn + 'a \<Rightarrow> ('a \<Rightarrow> event list \<times> (exn + 'b)) \<Rightarrow> event list \<times> (exn + 'b)" where
  "step events m f =
     (case m of
        Inl e \<Rightarrow> (events, Inl e)
      | Inr x \<Rightarrow> (case f x of (later, r) \<Rightarrow> (events @ later, r)))"

section \<open>\<^verbatim>\<open>types.ts\<close>\<close>

text \<open>
  The fields of \<^verbatim>\<open>PaymentRequirements\<close> that the services read, with their declared
  types (the optional fields are never read).
\<close>

record PaymentRequirements =
  scheme :: jsstring
  network :: jsstring
  maxAmountRequired :: jsstring
  resource :: jsstring
  payTo :: jsstring

text \<open>\<^verbatim>\<open>VerifyRequest\<close> and \<^verbatim>\<open>SettleRequest\<close> have the same fields.\<close>

record VerifyRequest =
  paymentHeader :: jsstring
  paymentRequirements :: PaymentRequirements

type_synonym SettleRequest = VerifyRequest

record TronVerifyResponse =
  isValid :: bool
  invalidReason :: "jsstring option"
  payer :: jsval
  paymentToken :: jsval

record SettleResponse =
  success :: bool
  transactionHash :: jsval
  network' :: jsstring
  settledAmount :: jsval
  error :: "jsstring option"

section \<open>\<^verbatim>\<open>TronX402Service\<close>\<close>

text \<open>
  \<^verbatim>\<open>parsePaymentHeader\<close>: Base64, UTF-8, \<^verbatim>\<open>JSON.parse\<close>; \<^verbatim>\<open>null\<close> when
  \<^verbatim>\<open>JSON.parse\<close> throws. The result is whatever value the text denotes.
\<close>

definition parsePaymentHeader :: "jsstring \<Rightarrow> json" where
  "parsePaymentHeader header =
     (case JSON_parse (utf8_decode (from_base64 header)) of
        Inl e \<Rightarrow> JNull
      | Inr v \<Rightarrow> v)"

text \<open>\<^verbatim>\<open>encodePaymentHeader\<close>\<close>

definition encodePaymentHeader :: "runtime \<Rightarrow> json \<Rightarrow> jsstring" where
  "encodePaymentHeader r token = to_base64 (utf8_encode (JSON_stringify r token))"

text \<open>
  \<^verbatim>\<open>String.prototype.toLowerCase\<close>: on ASCII text the letters A to Z; the Unicode case
  mapping of other text is the runtime's.
\<close>

definition toLowerCase :: "runtime \<Rightarrow> jsstring \<Rightarrow> jsstring" where
  "toLowerCase r s =
     (if list_all (\<lambda>c. c < 128) s
      then map (\<lambda>c. if 65 \<le> c \<and> c \<le> 90 then c + 32 else c) s
      else unicode_lower r s)"

text \<open>
  \<^verbatim>\<open>normalizeAddress\<close>. On a string: a leading \<^verbatim>\<open>T\<close> sends it through
  \<^verbatim>\<open>tronWeb.address.toHex\<close>, and when that throws the \<^verbatim>\<open>catch\<close> lower-cases the
  input. On any other value \<^verbatim>\<open>address.startsWith\<close> fails, and so does
  \<^verbatim>\<open>address.toLowerCase()\<close> in the \<^verbatim>\<open>catch\<close> block: that TypeError leaves the
  function.
\<close>

definition normalizeAddress :: "env \<Rightarrow> jsval \<Rightarrow> exn + jsstring" where
  "normalizeAddress env address =
     (case address of
        Some (JStr s) \<Rightarrow>
          if s \<noteq> [] \<and> hd s = 84 then
            (case address_toHex (tronWeb env) s of
               Inr h \<Rightarrow> Inr (toLowerCase (rt env) h)
             | Inl e \<Rightarrow> Inr (toLowerCase (rt env) s))
          else Inr (toLowerCase (rt env) s)
      | None \<Rightarrow> Inl (ErrorObj TypeError
                 (js (''Cannot read properties of undefined (reading '' @ [CHR 0x27] @ ''toLowerCase'' @ [CHR 0x27] @ '')'')))
      | Some JNull \<Rightarrow> Inl (ErrorObj TypeError
                 (js (''Cannot read properties of null (reading '' @ [CHR 0x27] @ ''toLowerCase'' @ [CHR 0x27] @ '')'')))
      | Some _ \<Rightarrow> Inl (ErrorObj TypeError (js ''address.toLowerCase is not a function'')))"

text \<open>An element of \<^verbatim>\<open>Array.prototype.join\<close>: \<^verbatim>\<open>undefined\<close> and \<^verbatim>\<open>null\<close> are empty.\<close>

definition join_element :: "runtime \<Rightarrow> jsval \<Rightarrow> exn + jsstring" where
  "join_element r v = (if v = None \<or> v = Some JNull then Inr [] else to_string r v)"

text \<open>The elements in order; the first one that throws ends the conversion.\<close>

fun join_elements :: "runtime \<Rightarrow> jsval list \<Rightarrow> exn + jsstring list" where
  "join_elements r [] = Inr []"
| "join_elements r (v # vs) =
     (case join_element r v of
        Inl e \<Rightarrow> Inl e
      | Inr s \<Rightarrow> (case join_elements r vs of Inl e \<Rightarrow> Inl e | Inr ss \<Rightarrow> Inr (s # ss)))"

text \<open>\<^verbatim>\<open>buildSignatureMessage\<close>: \<^verbatim>\<open>from|to|value|validAfter|validBefore|nonce|tokenAddress\<close>\<close>

definition buildSignatureMessage :: "env \<Rightarrow> jsval \<Rightarrow> exn + jsstring" where
  "buildSignatureMessage env payload =
     and_then (get payload ''from'') (\<lambda>p_from.
     and_then (get payload ''to'') (\<lambda>p_to.
     and_then (get payload ''value'') (\<lambda>p_value.
     and_then (get payload ''validAfter'') (\<lambda>p_validAfter.
     and_then (get payload ''validBefore'') (\<lambda>p_validBefore.
     and_then (get payload ''nonce'') (\<lambda>p_nonce.
     and_then (get payload ''tokenAddress'') (\<lambda>p_tokenAddress.
       let parts = [p_from, p_to, p_value, p_validAfter, p_validBefore, p_nonce]
                   @ (if truthy (rt env) p_tokenAddress then [p_tokenAddress] else [])
       in and_then (join_elements (rt env) parts) (\<lambda>texts.
            Inr (join_with (js ''|'') texts)))))))))"

text \<open>
  \<^verbatim>\<open>verifyTronSignature\<close>: everything happens inside \<^verbatim>\<open>try\<close>, so every throw ends as
  \<^verbatim>\<open>{valid: false, reason: ...}\<close>.
\<close>

definition verifyTronSignature :: "env \<Rightarrow> jsval \<Rightarrow> jsval \<Rightarrow> bool \<times> jsstring option" where
  "verifyTronSignature env payload signature =
     (case
        and_then (buildSignatureMessage env payload) (\<lambda>message.
        and_then (toHex (tronWeb env) message) (\<lambda>messageHex.
        and_then (get signature ''signature'') (\<lambda>signature_signature.
        and_then (verifyMessage (tronWeb env) messageHex signature_signature) (\<lambda>recoveredAddress.
        and_then (to_string (rt env) recoveredAddress) (\<lambda>recovered.
        and_then (normalizeAddress env (Some (JStr recovered))) (\<lambda>normalizedRecovered.
        and_then (get payload ''from'') (\<lambda>p_from.
        and_then (normalizeAddress env p_from) (\<lambda>normalizedFrom.
          if normalizedRecovered \<noteq> normalizedFrom
          then and_then (to_string (rt env) p_from) (\<lambda>expected.
                 Inr (False, Some (js ''Signature verification failed: recovered '' @ recovered
                                   @ js '', expected '' @ expected)))
          else Inr (True, None)))))))))
      of
        Inr r \<Rightarrow> r
      | Inl e \<Rightarrow> (False, Some (js ''Signature verification error: '' @ message_or (js ''Unknown error'') e)))"

definition invalid :: "jsstring option \<Rightarrow> TronVerifyResponse" where
  "invalid reason = \<lparr>isValid = False, invalidReason = reason, payer = None, paymentToken = None\<rparr>"

text \<open>
  \<^verbatim>\<open>verify\<close>, check by check in the order of the source. \<open>Inl\<close> is an exception that
  leaves \<^verbatim>\<open>verify\<close> (its promise rejects): the source has no \<^verbatim>\<open>try\<close> around its
  checks, and a template literal converts what it prints to a string.
\<close>

definition verify :: "env \<Rightarrow> VerifyRequest \<Rightarrow> exn + TronVerifyResponse" where
  "verify env request =
     (let requirements = paymentRequirements request;
          token = Some (parsePaymentHeader (paymentHeader request))
      in
      if \<not> truthy (rt env) token
      then Inr (invalid (Some (js ''Invalid payment header format - unable to decode'')))
      else
        and_then (get token ''scheme'') (\<lambda>t_scheme.
        if t_scheme \<noteq> Some (JStr (scheme requirements))
        then and_then (to_string (rt env) t_scheme) (\<lambda>got.
               Inr (invalid (Some (js ''Scheme mismatch: expected '' @ scheme requirements
                                   @ js '', got '' @ got))))
        else
        and_then (get token ''network'') (\<lambda>t_network.
        if t_network \<noteq> Some (JStr (network requirements))
        then and_then (to_string (rt env) t_network) (\<lambda>got.
               Inr (invalid (Some (js ''Network mismatch: expected '' @ network requirements
                                   @ js '', got '' @ got))))
        else
        and_then (get token ''payload'') (\<lambda>payload.
        and_then (get token ''signature'') (\<lambda>signature.
        let signatureValid =
              (if t_scheme = Some (JStr (js ''tron-transfer''))
               then verifyTronSignature env payload signature
               else (True, None))
        in
        if \<not> fst signatureValid then Inr (invalid (snd signatureValid))
        else
        and_then (get payload ''value'') (\<lambda>p_value.
        and_then (BigInt (rt env) p_value) (\<lambda>paymentAmount.
        and_then (BigInt (rt env) (Some (JStr (maxAmountRequired requirements)))) (\<lambda>requiredAmount.
        if paymentAmount < requiredAmount
        then Inr (invalid (Some (js ''Insufficient payment: required '' @ bigint_to_string requiredAmount
                                 @ js '', got '' @ bigint_to_string paymentAmount)))
        else
        and_then (get payload ''to'') (\<lambda>p_to.
        and_then (normalizeAddress env p_to) (\<lambda>normalizedPayloadTo.
        and_then (normalizeAddress env (Some (JStr (payTo requirements)))) (\<lambda>normalizedRequiredTo.
        if normalizedPayloadTo \<noteq> normalizedRequiredTo
        then and_then (to_string (rt env) p_to) (\<lambda>got.
               Inr (invalid (Some (js ''Recipient mismatch: expected '' @ payTo requirements
                                   @ js '', got '' @ got))))
        else
        let now = now_ms env div 1000 in
        and_then (get payload ''validAfter'') (\<lambda>p_validAfter.
        and_then (parseInt (rt env) p_validAfter) (\<lambda>validAfter.
        and_then (get payload ''validBefore'') (\<lambda>p_validBefore.
        and_then (parseInt (rt env) p_validBefore) (\<lambda>validBefore.
        if int_less now validAfter
        then Inr (invalid (Some (js ''Payment not yet valid: validAfter ''
                                 @ number_to_string (rt env) validAfter
                                 @ js '', current time '' @ bigint_to_string now)))
        else if int_ge now validBefore
        then Inr (invalid (Some (js ''Payment expired: validBefore ''
                                 @ number_to_string (rt env) validBefore
                                 @ js '', current time '' @ bigint_to_string now)))
        else
        and_then (get payload ''from'') (\<lambda>p_from.
          Inr \<lparr>isValid = True, invalidReason = None, payer = p_from, paymentToken = token\<rparr>
        ))))))))))))))))"

section \<open>\<^verbatim>\<open>TronSettlementService\<close>\<close>

definition failure :: "jsstring \<Rightarrow> jsval \<Rightarrow> jsstring \<Rightarrow> SettleResponse" where
  "failure net tx msg =
     \<lparr>success = False, transactionHash = tx, network' = net, settledAmount = None, error = Some msg\<rparr>"

text \<open>
  How a confirmation loop ends: by a \<^verbatim>\<open>return\<close> inside it, by leaving it (\<^verbatim>\<open>break\<close> or
  the loop condition) with the value of \<^verbatim>\<open>confirmed\<close>, or by an exception.
\<close>

datatype loop_end = Returned SettleResponse | Left bool | Raised exn

text \<open>\<^verbatim>\<open>txInfo && txInfo.receipt\<close>: the receipt when both are truthy.\<close>

definition receipt_of :: "runtime \<Rightarrow> jsval \<Rightarrow> jsval option" where
  "receipt_of r txInfo =
     (if truthy r txInfo
      then (case get txInfo ''receipt'' of
              Inr receipt \<Rightarrow> if truthy r receipt then Some receipt else None
            | Inl e \<Rightarrow> None)
      else None)"

text \<open>
  The confirmation loop of \<^verbatim>\<open>executeTRC20Settlement\<close>, entered with \<^verbatim>\<open>confirmed\<close>
  false and \<^verbatim>\<open>attempts\<close> polls behind it; \<^verbatim>\<open>maxAttempts\<close> is 30 and the delay 2000 ms.
\<close>

function poll_receipt :: "env \<Rightarrow> jsstring \<Rightarrow> jsval \<Rightarrow> nat \<Rightarrow> event list \<times> loop_end" where
  "poll_receipt env net tx attempts =
     (if attempts < 30 then
        (case getTransactionInfo (tronWeb env) tx attempts of
           Inl e \<Rightarrow> ([Delay 2000, GetTransactionInfo tx attempts], Raised e)
         | Inr txInfo \<Rightarrow>
             (case receipt_of (rt env) txInfo of
                Some receipt \<Rightarrow>
                  (case get receipt ''result'' of
                     Inl e \<Rightarrow> ([Delay 2000, GetTransactionInfo tx attempts], Raised e)
                   | Inr result \<Rightarrow>
                       let confirmed = (result = Some (JStr (js ''SUCCESS''))) in
                       if \<not> confirmed \<and> truthy (rt env) result
                       then ([Delay 2000, GetTransactionInfo tx attempts],
                             case to_string (rt env) result of
                               Inl e \<Rightarrow> Raised e
                             | Inr text \<Rightarrow>
                                 Returned (failure net tx (js ''Transaction failed: '' @ text)))
                       else ([Delay 2000, GetTransactionInfo tx attempts], Left confirmed))
              | None \<Rightarrow>
                  (case poll_receipt env net tx (attempts + 1) of
                     (events, r) \<Rightarrow> (Delay 2000 # GetTransactionInfo tx attempts # events, r))))
      else ([], Left False))"
  by pat_completeness auto
termination
  by (relation "measure (\<lambda>(env, net, tx, attempts). 30 - attempts)") auto

text \<open>
  The loop of \<^verbatim>\<open>executeTRXSettlement\<close>: confirmed as soon as the answer is an object with
  a key.
\<close>

function poll_info :: "env \<Rightarrow> jsval \<Rightarrow> nat \<Rightarrow> event list \<times> loop_end" where
  "poll_info env tx attempts =
     (if attempts < 30 then
        (case getTransactionInfo (tronWeb env) tx attempts of
           Inl e \<Rightarrow> ([Delay 2000, GetTransactionInfo tx attempts], Raised e)
         | Inr txInfo \<Rightarrow>
             if truthy (rt env) txInfo \<and> 0 < keys_count (the txInfo)
             then ([Delay 2000, GetTransactionInfo tx attempts], Left True)
             else (case poll_info env tx (attempts + 1) of
                     (events, r) \<Rightarrow> (Delay 2000 # GetTransactionInfo tx attempts # events, r)))
      else ([], Left False))"
  by pat_completeness auto
termination
  by (relation "measure (\<lambda>(env, tx, attempts). 30 - attempts)") auto

definition wallet_error :: exn where
  "wallet_error =
     ErrorObj PlainError (js ''TronWalletService not initialized. Ensure TRON_PRIVATE_KEY is configured.'')"

text \<open>
  \<^verbatim>\<open>executeTRC20Settlement\<close>. Its \<^verbatim>\<open>catch\<close> only rethrows, so an exception of the client
  leaves the function, with the events up to it. The two log lines print the transaction
  id in a template literal: \<open>logged\<close> is that conversion, which may throw.
\<close>

definition logged :: "runtime \<Rightarrow> jsval \<Rightarrow> exn + unit" where
  "logged r v = (case to_string r v of Inl e \<Rightarrow> Inl e | Inr text \<Rightarrow> Inr ())"

definition executeTRC20Settlement :: "env \<Rightarrow> jsval \<Rightarrow> jsstring \<Rightarrow> event list \<times> (exn + SettleResponse)" where
  "executeTRC20Settlement env token net =
     (if \<not> wallet_configured env then ([], Inl wallet_error)
      else
      step [] (get token ''payload'') (\<lambda>payload.
      step [] (get payload ''tokenAddress'') (\<lambda>tokenAddress.
      if \<not> truthy (rt env) tokenAddress
      then ([], Inr (failure net None (js ''TRC20 token address not specified'')))
      else
      step [ContractAt tokenAddress] (contract (tronWeb env) tokenAddress) (\<lambda>instance.
      step [] (get payload ''to'') (\<lambda>p_to.
      step [] (get payload ''value'') (\<lambda>p_value.
      step [TransferSend tokenAddress p_to p_value]
           (transfer_send (tronWeb env) tokenAddress p_to p_value) (\<lambda>tx.
      step [] (logged (rt env) tx) (\<lambda>_.
      (case poll_receipt env net tx 0 of
         (events, ended) \<Rightarrow>
           (events,
            case ended of
              Raised e \<Rightarrow> Inl e
            | Returned response \<Rightarrow> Inr response
            | Left confirmed \<Rightarrow>
                if \<not> confirmed
                then Inr (failure net tx (js ''Transaction confirmation timeout''))
                else and_then (logged (rt env) tx) (\<lambda>_.
                       Inr \<lparr>success = True, transactionHash = tx, network' = net,
                             settledAmount = p_value, error = None\<rparr>)))))))))))"

text \<open>\<^verbatim>\<open>tx.txid || tx.transaction?.txID\<close>\<close>

definition txid_of :: "runtime \<Rightarrow> jsval \<Rightarrow> exn + jsval" where
  "txid_of r tx =
     and_then (get tx ''txid'') (\<lambda>txid.
       if truthy r txid then Inr txid
       else and_then (get tx ''transaction'') (\<lambda>transaction.
         if transaction = None \<or> transaction = Some JNull then Inr None
         else get transaction ''txID''))"

text \<open>
  \<^verbatim>\<open>executeTRXSettlement\<close>: the amount handed to \<^verbatim>\<open>sendTransaction\<close> is
  \<^verbatim>\<open>parseInt(payload.value, 10)\<close>, the amount reported is \<^verbatim>\<open>payload.value\<close>.
\<close>

definition executeTRXSettlement :: "env \<Rightarrow> jsval \<Rightarrow> jsstring \<Rightarrow> event list \<times> (exn + SettleResponse)" where
  "executeTRXSettlement env token net =
     (if \<not> wallet_configured env then ([], Inl wallet_error)
      else
      step [] (get token ''payload'') (\<lambda>payload.
      step [] (get payload ''to'') (\<lambda>p_to.
      step [] (get payload ''value'') (\<lambda>p_value.
      step [] (parseInt (rt env) p_value) (\<lambda>amount.
      step [SendTransaction p_to amount] (sendTransaction (tronWeb env) p_to amount) (\<lambda>tx.
      step [] (get tx ''result'') (\<lambda>tx_result.
      if \<not> truthy (rt env) tx_result
      then ([], Inr (failure net None (js ''Transaction creation failed'')))
      else
      step [] (txid_of (rt env) tx) (\<lambda>txId.
      step [] (logged (rt env) txId) (\<lambda>_.
      (case poll_info env txId 0 of
         (events, ended) \<Rightarrow>
           (events,
            case ended of
              Raised e \<Rightarrow> Inl e
            | Returned response \<Rightarrow> Inr response
            | Left confirmed \<Rightarrow>
                if \<not> confirmed
                then Inr (failure net txId (js ''Transaction confirmation timeout''))
                else and_then (logged (rt env) txId) (\<lambda>_.
                       Inr \<lparr>success = True, transactionHash = txId, network' = net,
                             settledAmount = p_value, error = None\<rparr>))))))))))))"

text \<open>
  The \<^verbatim>\<open>try\<close> block of \<^verbatim>\<open>settle\<close>: the dispatch on the scheme and on
  \<^verbatim>\<open>payload.tokenAddress\<close>.
\<close>

definition dispatch :: "env \<Rightarrow> jsval \<Rightarrow> jsstring \<Rightarrow> event list \<times> (exn + SettleResponse)" where
  "dispatch env token net =
     step [] (get token ''scheme'') (\<lambda>t_scheme.
     if t_scheme = Some (JStr (js ''tron-transfer'')) then
       step [] (get token ''payload'') (\<lambda>payload.
       step [] (get payload ''tokenAddress'') (\<lambda>tokenAddress.
       if truthy (rt env) tokenAddress
       then executeTRC20Settlement env token net
       else executeTRXSettlement env token net))
     else step [] (to_string (rt env) t_scheme) (\<lambda>name.
            ([], Inr (failure net None (js ''Unsupported TRON payment scheme: '' @ name)))))"

text \<open>
  \<^verbatim>\<open>settle\<close>: the events of the call and its result. The call of \<^verbatim>\<open>verify\<close> stands
  before the \<^verbatim>\<open>try\<close>, so an exception of \<^verbatim>\<open>verify\<close> leaves \<^verbatim>\<open>settle\<close>; one raised
  inside the \<^verbatim>\<open>try\<close> becomes \<^verbatim>\<open>{success: false, network, error}\<close>.
\<close>

definition settle :: "env \<Rightarrow> SettleRequest \<Rightarrow> event list \<times> (exn + SettleResponse)" where
  "settle env request =
     (let net = network (paymentRequirements request) in
      if \<not> wallet_configured env
      then ([], Inr (failure net None (js ''TRON settlement service unavailable - wallet not configured'')))
      else
      let token = Some (parsePaymentHeader (paymentHeader request)) in
      if \<not> truthy (rt env) token
      then ([], Inr (failure net None (js ''Invalid payment header format'')))
      else
      case verify env request of
        Inl e \<Rightarrow> ([], Inl e)
      | Inr verification \<Rightarrow>
          if \<not> isValid verification
          then ([], Inr (failure net None
                  (js ''Verification failed: ''
                   @ (case invalidReason verification of None \<Rightarrow> js ''undefined'' | Some reason \<Rightarrow> reason))))
          else
          (case dispatch env token net of
             (events, r) \<Rightarrow>
               (events,
                case r of
                  Inl e \<Rightarrow> Inr (failure net None (message_or (js ''Unknown settlement error'') e))
                | Inr response \<Rightarrow> Inr response)))"

section \<open>Vocabulary of the properties\<close>

subsection \<open>Well-formed text and valid tokens\<close>

text \<open>A string whose code units are 16-bit values.\<close>

definition utf16 :: "jsstring \<Rightarrow> bool" where
  "utf16 s = list_all (\<lambda>u. u < 65536) s"

text \<open>Well-formed UTF-16: every surrogate is half of a pair.\<close>

fun well_formed :: "jsstring \<Rightarrow> bool" where
  "well_formed [] = True"
| "well_formed (u # us) =
     (if high_surrogate u
      then (case us of [] \<Rightarrow> False | l # rest \<Rightarrow> low_surrogate l \<and> well_formed rest)
      else \<not> low_surrogate u \<and> u < 65536 \<and> well_formed us)"

text \<open>
  The JSON values whose text does not depend on the runtime's printing of numbers:
  strings, booleans, \<^verbatim>\<open>null\<close>, arrays and objects of such values, an object's keys
  distinct (as the keys of a JavaScript object are).
\<close>

fun plain_json :: "json \<Rightarrow> bool" where
  "plain_json JNull = True"
| "plain_json (JBool b) = True"
| "plain_json (JNum lexeme) = False"
| "plain_json (JStr s) = utf16 s"
| "plain_json (JArr xs) = list_all plain_json xs"
| "plain_json (JObj kvs) =
     (distinct (map fst kvs) \<and> list_all (\<lambda>(k, v). utf16 k \<and> plain_json v) kvs)"

text \<open>
  The model keeps a number as text, so one double has many representations; JavaScript
  prints each double in one way. \<open>number_text r\<close> holds of the text that the runtime
  prints for its number, a text that the parser reads as one number. \<open>stable_json r\<close>
  are the values all of whose numbers are written that way: every value of a JavaScript
  program has such a representation.
\<close>

definition number_text :: "runtime \<Rightarrow> jsstring \<Rightarrow> bool" where
  "number_text r lexeme = (num_to_json r lexeme = lexeme \<and> scan_number lexeme = Some (lexeme, []))"

fun stable_json :: "runtime \<Rightarrow> json \<Rightarrow> bool" where
  "stable_json r JNull = True"
| "stable_json r (JBool b) = True"
| "stable_json r (JNum lexeme) = number_text r lexeme"
| "stable_json r (JStr s) = utf16 s"
| "stable_json r (JArr xs) = list_all (stable_json r) xs"
| "stable_json r (JObj kvs) =
     (distinct (map fst kvs) \<and> list_all (\<lambda>(k, v). utf16 k \<and> stable_json r v) kvs)"

definition string_field :: "jsval \<Rightarrow> string \<Rightarrow> bool" where
  "string_field v k = (case get v k of Inr (Some (JStr s)) \<Rightarrow> True | _ \<Rightarrow> False)"

text \<open>A field that is a string, \<^verbatim>\<open>null\<close> or absent.\<close>

definition optional_string_field :: "jsval \<Rightarrow> string \<Rightarrow> bool" where
  "optional_string_field v k =
     (case get v k of
        Inr (Some (JStr s)) \<Rightarrow> True
      | Inr (Some JNull) \<Rightarrow> True
      | Inr None \<Rightarrow> True
      | _ \<Rightarrow> False)"

text \<open>A field that is there, whatever its value.\<close>

definition present_field :: "jsval \<Rightarrow> string \<Rightarrow> bool" where
  "present_field v k = (case get v k of Inr (Some x) \<Rightarrow> True | _ \<Rightarrow> False)"

definition field :: "jsval \<Rightarrow> string \<Rightarrow> jsval" where
  "field v k = (case get v k of Inr x \<Rightarrow> x | Inl e \<Rightarrow> None)"

text \<open>
  Modelled from the spec: the declarations of \<^verbatim>\<open>TronPaymentToken\<close>,
  \<^verbatim>\<open>TronTransferPayload\<close> and \<^verbatim>\<open>TronSignature\<close> are not among the sources (the
  services import them from \<^verbatim>\<open>types.ts\<close>, which does not hold them). By the spec's data
  model a payment token has \<open>scheme\<close>, \<open>network\<close>, \<open>payload\<close> and \<open>signature\<close>; the
  payload of a transfer has the addresses \<open>from\<close> and \<open>to\<close>, the decimal string
  \<open>value\<close>, the strings \<open>validAfter\<close> and \<open>validBefore\<close>, an opaque \<open>nonce\<close> and an
  optional \<open>tokenAddress\<close> (\<^verbatim>\<open>null\<close> for the native asset); the signature is a proof object
  that the scheme defines (any value that is there: a signature string, an object holding
  one, a triple \<^verbatim>\<open>v, r, s\<close> with a number for \<^verbatim>\<open>v\<close>).
\<close>

definition valid_token :: "runtime \<Rightarrow> json \<Rightarrow> bool" where
  "valid_token r t =
     (stable_json r t
      \<and> string_field (Some t) ''scheme''
      \<and> string_field (Some t) ''network''
      \<and> string_field (field (Some t) ''payload'') ''from''
      \<and> string_field (field (Some t) ''payload'') ''to''
      \<and> string_field (field (Some t) ''payload'') ''value''
      \<and> string_field (field (Some t) ''payload'') ''validAfter''
      \<and> string_field (field (Some t) ''payload'') ''validBefore''
      \<and> present_field (field (Some t) ''payload'') ''nonce''
      \<and> optional_string_field (field (Some t) ''payload'') ''tokenAddress''
      \<and> present_field (Some t) ''signature'')"

text \<open>
  The first character of a printed value, and the text of one member of an object.
\<close>

definition opener :: "nat \<Rightarrow> bool" where
  "opener c = (c = 34 \<or> c = 91 \<or> c = 102 \<or> c = 110 \<or> c = 116 \<or> c = 123 \<or> c = 45 \<or> is_digit c)"

text \<open>What follows a printed value: nothing, a comma, or the end of an array or object.\<close>

definition closes :: "jsstring \<Rightarrow> bool" where
  "closes rest = (rest = [] \<or> hd rest = 44 \<or> hd rest = 93 \<or> hd rest = 125)"

definition member_text :: "(json \<Rightarrow> jsstring) \<Rightarrow> jsstring \<times> json \<Rightarrow> jsstring" where
  "member_text f kv = quote (fst kv) @ [58] @ f (snd kv)"

subsection \<open>Polls\<close>




subsection \<open>A sample world\<close>

text \<open>
  A runtime, a client and tokens to evaluate the services on. The sample runtime is
  JavaScript's on the numbers written as an integer below \<open>2^53\<close> (\<open>int_lexeme\<close>: digits
  after an optional minus sign); on other numbers, on integers from \<open>2^53\<close> and on text that
  is not ASCII it is a stand-in, and no sample value takes it there. The sample client
  takes the signature string for the address of the signer, knows one address in both
  encodings, accepts every transfer and answers every poll with an empty object.
\<close>

definition int_lexeme :: "jsstring \<Rightarrow> int option" where
  "int_lexeme lexeme =
     (let negative = (lexeme \<noteq> [] \<and> hd lexeme = 45);
          digits = (if negative then tl lexeme else lexeme)
      in if list_all is_digit digits
         then (case digits_value 10 digits of
                 None \<Rightarrow> None
               | Some n \<Rightarrow> if n < 2 ^ 53 then Some (if negative then - n else n) else None)
         else None)"

definition plain_runtime :: runtime where
  "plain_runtime =
     \<lparr>num_to_string = (\<lambda>lexeme. case int_lexeme lexeme of Some i \<Rightarrow> bigint_to_string i | None \<Rightarrow> lexeme),
      num_to_json = (\<lambda>lexeme. case int_lexeme lexeme of Some i \<Rightarrow> bigint_to_string i | None \<Rightarrow> lexeme),
      num_truthy = (\<lambda>lexeme. case int_lexeme lexeme of Some i \<Rightarrow> i \<noteq> 0 | None \<Rightarrow> True),
      num_to_bigint = (\<lambda>lexeme. case int_lexeme lexeme of
         Some i \<Rightarrow> Inr i
       | None \<Rightarrow> Inl (ErrorObj RangeError
                   (js ''The number '' @ lexeme @ js '' cannot be converted to a BigInt because it is not an integer''))),
      large_to_string = bigint_to_string, unicode_lower = (\<lambda>s. s)\<rparr>"

definition test_client :: tronweb where
  "test_client =
     \<lparr>toHex = (\<lambda>message. Inr message),
      verifyMessage = (\<lambda>message signature. Inr signature),
      address_toHex = (\<lambda>a. if a = js ''TNPeeaaFB7K9cmo4uQpcU32zGK8G1NYqeL''
                            then Inr (js ''418840e6c55b9ada326d211d818c34a994aeced808'')
                            else Inl (ErrorObj PlainError (js ''Invalid address provided''))),
      contract = (\<lambda>a. Inr ()),
      transfer_send = (\<lambda>a recipient amount. Inr (Some (JStr (js ''tx-trc20'')))),
      sendTransaction = (\<lambda>recipient amount.
         Inr (Some (JObj [(js ''result'', JBool True), (js ''txid'', JStr (js ''tx-trx''))]))),
      getTransactionInfo = (\<lambda>tx i. Inr (Some (JObj [])))\<rparr>"

definition test_env :: env where
  "test_env = \<lparr>rt = plain_runtime, tronWeb = test_client, wallet_configured = True,
                now_ms = 1700000000000\<rparr>"

definition payload_of :: "string \<Rightarrow> string \<Rightarrow> (jsstring \<times> json) list" where
  "payload_of recipient amount =
     [(js ''from'', JStr (js ''41aa'')), (js ''to'', JStr (js recipient)),
      (js ''value'', JStr (js amount)), (js ''validAfter'', JStr (js ''0'')),
      (js ''validBefore'', JStr (js ''2000000000'')), (js ''nonce'', JStr (js ''n1''))]"

definition token_of :: "string \<Rightarrow> (jsstring \<times> json) list \<Rightarrow> string \<Rightarrow> json" where
  "token_of sch payload sig =
     JObj [(js ''scheme'', JStr (js sch)), (js ''network'', JStr (js ''tron-shasta'')),
           (js ''payload'', JObj payload),
           (js ''signature'', JObj [(js ''signature'', JStr (js sig))])]"

definition request_of :: "json \<Rightarrow> string \<Rightarrow> string \<Rightarrow> string \<Rightarrow> VerifyRequest" where
  "request_of token sch amount recipient =
     \<lparr>paymentHeader = encodePaymentHeader plain_runtime token,
      paymentRequirements =
        \<lparr>scheme = js sch, network = js ''tron-shasta'', maxAmountRequired = js amount,
         resource = js ''/premium'', payTo = js recipient\<rparr>\<rparr>"

subsection \<open>Sample requests\<close>

text \<open>
  A signed transfer of 1000 to \<^verbatim>\<open>41bb\<close>, and the same world two billion seconds after the
  epoch, when the token has expired.
\<close>

definition transfer_token :: json where
  "transfer_token = token_of ''tron-transfer'' (payload_of ''41bb'' ''1000'') ''41AA''"

definition transfer_request :: VerifyRequest where
  "transfer_request = request_of transfer_token ''tron-transfer'' ''1000'' ''41BB''"

definition late_env :: env where
  "late_env = test_env\<lparr>now_ms := 2000000000000\<rparr>"

text \<open>
  Two tokens of the scheme \<^verbatim>\<open>exact\<close> that differ in the signature only, the requests that
  carry them, and a request whose requirements name another scheme.
\<close>

definition exact_one :: json where
  "exact_one = token_of ''exact'' (payload_of ''41bb'' ''1000'') ''signature-one''"

definition exact_two :: json where
  "exact_two = token_of ''exact'' (payload_of ''41bb'' ''1000'') ''signature-two''"

definition request_one :: VerifyRequest where
  "request_one = request_of exact_one ''exact'' ''1000'' ''41bb''"

definition request_two :: VerifyRequest where
  "request_two = request_of exact_two ''exact'' ''1000'' ''41bb''"

definition mismatch_request :: VerifyRequest where
  "mismatch_request = request_of exact_one ''tron-transfer'' ''1000'' ''41bb''"

text \<open>
  A token of the native asset, with \<^verbatim>\<open>tokenAddress: null\<close>, and a token whose nonce is a
  number and whose signature is a triple \<^verbatim>\<open>v, r, s\<close>.
\<close>

definition native_token :: json where
  "native_token =
     token_of ''tron-transfer'' (payload_of ''41bb'' ''1000'' @ [(js ''tokenAddress'', JNull)]) ''41AA''"

definition triple_token :: json where
  "triple_token =
     JObj [(js ''scheme'', JStr (js ''exact'')), (js ''network'', JStr (js ''tron-shasta'')),
           (js ''payload'',
            JObj [(js ''from'', JStr (js ''41aa'')), (js ''to'', JStr (js ''41bb'')),
                  (js ''value'', JStr (js ''1000'')), (js ''validAfter'', JStr (js ''0'')),
                  (js ''validBefore'', JStr (js ''2000000000'')), (js ''nonce'', JNum (js ''7''))]),
           (js ''signature'',
            JObj [(js ''v'', JNum (js ''27'')), (js ''r'', JStr (js ''0x01'')), (js ''s'', JStr (js ''0x02''))])]"

text \<open>
  A request whose token is \<^verbatim>\<open>{"scheme":{"toString":null}}\<close>: its scheme is an object that
  does not convert to a string.
\<close>

definition unprintable_request :: VerifyRequest where
  "unprintable_request =
     \<lparr>paymentHeader = js ''eyJzY2hlbWUiOnsidG9TdHJpbmciOm51bGx9fQ=='',
      paymentRequirements =
        \<lparr>scheme = js ''exact'', network = js ''tron-shasta'', maxAmountRequired = js ''1000'',
         resource = js ''/premium'', payTo = js ''41bb''\<rparr>\<rparr>"

text \<open>A verification result without the token it echoes.\<close>

definition without_echo :: "exn + TronVerifyResponse \<Rightarrow> exn + TronVerifyResponse" where
  "without_echo r = map_sum id (\<lambda>v. v\<lparr>paymentToken := None\<rparr>) r"

text \<open>Requests of the scheme \<^verbatim>\<open>exact\<close> that pay one amount against another.\<close>

definition amount_request :: "string \<Rightarrow> string \<Rightarrow> VerifyRequest" where
  "amount_request paid required =
     request_of (token_of ''exact'' (payload_of ''41bb'' paid) ''none'') ''exact'' required ''41bb''"

text \<open>
  A token transfer on the Shasta USDT contract, the events of its submission, a node that
  reports a reverted receipt at the third poll, and one that reports success at the first.
\<close>

definition trc20_token :: json where
  "trc20_token =
     token_of ''tron-transfer''
       (payload_of ''41bb'' ''1000'' @ [(js ''tokenAddress'', JStr (js ''TG3XXyExBkPp9nzdajDZsozEu4BkaSJozs''))])
       ''41AA''"



definition submitted :: "event list" where
  "submitted =
     [ContractAt (Some (JStr (js ''TG3XXyExBkPp9nzdajDZsozEu4BkaSJozs''))),
      TransferSend (Some (JStr (js ''TG3XXyExBkPp9nzdajDZsozEu4BkaSJozs''))) (Some (JStr (js ''41bb'')))
        (Some (JStr (js ''1000'')))]"

definition trc20_request :: VerifyRequest where
  "trc20_request = request_of trc20_token ''tron-transfer'' ''1000'' ''41bb''"

text \<open>A node whose status query fails, and one that knows every transaction at once.\<close>

definition broken_poll_env :: env where
  "broken_poll_env =
     test_env\<lparr>tronWeb := test_client\<lparr>getTransactionInfo :=
       (\<lambda>tx i. Inl (ErrorObj PlainError (js ''socket hang up'')))\<rparr>\<rparr>"

definition confirming_env :: env where
  "confirming_env =
     test_env\<lparr>tronWeb := test_client\<lparr>getTransactionInfo :=
       (\<lambda>tx i. Inr (Some (JObj [(js ''id'', JStr (js ''tx-trx''))])))\<rparr>\<rparr>"

text \<open>
  Requirements of the scheme \<^verbatim>\<open>exact\<close>; a native transfer of \<^verbatim>\<open>2^53 + 1\<close>; a transfer whose
  recipient is written with the prefix \<^verbatim>\<open>0x\<close> where the requirements write \<^verbatim>\<open>41\<close>.
\<close>

definition exact_requirements :: PaymentRequirements where
  "exact_requirements =
     \<lparr>scheme = js ''exact'', network = js ''tron-shasta'', maxAmountRequired = js ''1000'',
      resource = js ''/premium'', payTo = js ''41bb''\<rparr>"

definition native_big_request :: VerifyRequest where
  "native_big_request =
     request_of (token_of ''tron-transfer'' (payload_of ''41bb'' ''9007199254740993'') ''41AA'')
       ''tron-transfer'' ''9007199254740993'' ''41bb''"

definition prefixed_request :: VerifyRequest where
  "prefixed_request =
     request_of (token_of ''tron-transfer''
                   (payload_of ''0x8840e6c55b9ada326d211d818c34a994aeced808'' ''1000'') ''41AA'')
       ''tron-transfer'' ''1000'' ''418840e6c55b9ada326d211d818c34a994aeced808''"

section \<open>The codec: what is encoded is decoded\<close>

subsection \<open>Base64\<close>

lemma dm_div: "x < n \<Longrightarrow> (m * n + x) div n = (m::nat)" by simp

lemma dm_mod: "x < n \<Longrightarrow> (m * n + x) mod n = (x::nat)" by simp

lemma unbase64_base64_char: "v < 64 \<Longrightarrow> unbase64 (base64_char v) = Some v"
  by (auto simp: unbase64_def base64_char_def)

lemma base64_char_not_pad: "v < 64 \<Longrightarrow> base64_char v \<noteq> 61"
  by (auto simp: base64_char_def)

lemma base64_char_byte: "v < 64 \<Longrightarrow> base64_char v mod 256 = base64_char v"
  by (auto simp: base64_char_def)

lemma sextets_char: "v < 64 \<Longrightarrow> sextets (base64_char v # cs) = v # sextets cs"
  by (simp add: base64_char_byte unbase64_base64_char base64_char_not_pad)

lemma byte_div4: "(a::nat) < 256 \<Longrightarrow> a div 4 < 64" by arith

lemma byte_div16: "(b::nat) < 256 \<Longrightarrow> b div 16 < 16" by arith

lemma byte_div64: "(c::nat) < 256 \<Longrightarrow> c div 64 < 4" by arith

lemma lin64: "x < 4 \<Longrightarrow> y < 16 \<Longrightarrow> x * 16 + y < (64::nat)" by simp

lemma lin64': "x < 16 \<Longrightarrow> y < 4 \<Longrightarrow> x * 4 + y < (64::nat)" by simp

lemma sextet2: "(b::nat) < 256 \<Longrightarrow> (a mod 4) * 16 + b div 16 < 64"
  by (rule lin64) (simp_all add: byte_div16)

lemma sextet3: "(c::nat) < 256 \<Longrightarrow> (b mod 16) * 4 + c div 64 < 64"
  by (rule lin64') (simp_all add: byte_div64)

lemma sextet2': "((a::nat) mod 4) * 16 < 64"
  using lin64 [of "a mod 4" 0] by simp

lemma sextet3': "((b::nat) mod 16) * 4 < 64"
  using lin64' [of "b mod 16" 0] by simp

lemma byte1: "(b::nat) < 256 \<Longrightarrow> a div 4 * 4 + (a mod 4 * 16 + b div 16) div 16 = a"
  by (simp add: dm_div byte_div16)

lemma byte2: "(b::nat) < 256 \<Longrightarrow> c < 256 \<Longrightarrow>
    (a mod 4 * 16 + b div 16) mod 16 * 16 + (b mod 16 * 4 + c div 64) div 4 = b"
  by (simp add: dm_div dm_mod byte_div16 byte_div64)

lemma byte3: "(c::nat) < 256 \<Longrightarrow> (b mod 16 * 4 + c div 64) mod 4 * 64 + c mod 64 = c"
  by (simp add: dm_mod byte_div64)

lemma byte2': "(b::nat) < 256 \<Longrightarrow> (a mod 4 * 16 + b div 16) mod 16 * 16 + (b mod 16 * 4) div 4 = b"
  by (simp add: dm_mod byte_div16)

lemma byte1': "a div 4 * 4 + (a mod 4 * 16) div 16 = (a::nat)"
  by simp

lemma sextets_pad: "sextets (61 # cs) = []"
  by simp

lemma group3:
  assumes "a < 256" "b < 256" "c < 256"
  shows "sextet_bytes (a div 4 # (a mod 4 * 16 + b div 16) # (b mod 16 * 4 + c div 64) # c mod 64 # rest)
         = a # b # c # sextet_bytes rest"
  using assms by (simp only: sextet_bytes.simps byte1 byte2 byte3)

lemma group2:
  assumes "a < 256" "b < 256"
  shows "sextet_bytes [a div 4, a mod 4 * 16 + b div 16, b mod 16 * 4] = [a, b]"
  using assms by (simp only: sextet_bytes.simps byte1 byte2')

lemma group1: "sextet_bytes [a div 4, a mod 4 * 16] = [a]"
  by (simp only: sextet_bytes.simps byte1')

lemma from_base64_to_base64: "list_all (\<lambda>b. b < 256) bs \<Longrightarrow> from_base64 (to_base64 bs) = bs"
  unfolding from_base64_def
proof (induction bs rule: to_base64.induct)
  case (1 a b c rest)
  then show ?case
    by (simp add: sextets_char byte_div4 sextet2 sextet3 group3 del: sextets.simps sextet_bytes.simps)
next
  case (2 a b)
  then show ?case
    by (simp add: sextets_char byte_div4 sextet2 sextet3' group2 sextets_pad del: sextets.simps sextet_bytes.simps)
next
  case (3 a)
  then show ?case
    by (simp add: sextets_char byte_div4 sextet2' group1 sextets_pad del: sextets.simps sextet_bytes.simps)
next
  case 4
  then show ?case by simp
qed

subsection \<open>UTF-8\<close>

lemma u2_a: "128 \<le> (u::nat) \<Longrightarrow> 2 \<le> u div 64" by arith

lemma u2_b: "(u::nat) < 2048 \<Longrightarrow> u div 64 \<le> 31" by arith

lemma decode2:
  assumes "128 \<le> u" "u < 2048"
  shows "utf8_decode ((192 + u div 64) # (128 + u mod 64) # rest) = u # utf8_decode rest"
  using u2_a [OF assms(1)] u2_b [OF assms(2)]
  by (simp add: continuation_def)

lemma u3_a: "(u::nat) < 65536 \<Longrightarrow> u div 4096 \<le> 15" by arith

lemma u3_b:
  assumes "2048 \<le> (u::nat)" "u < 4096"
  shows "32 \<le> (u div 64) mod 64"
proof -
  have "32 \<le> u div 64" "u div 64 < 64" using assms by arith+
  then show ?thesis by simp
qed

lemma mod64_window: "832 \<le> (v::nat) \<Longrightarrow> v < 864 \<Longrightarrow> v mod 64 \<le> 31" by arith

lemma u3_c:
  assumes "53248 \<le> (u::nat)" "u < 55296"
  shows "(u div 64) mod 64 \<le> 31"
proof -
  have "832 \<le> u div 64" "u div 64 < 864" using assms by arith+
  then show ?thesis by (rule mod64_window)
qed

lemma u3_d: "(u::nat) div 4096 = 0 \<longleftrightarrow> u < 4096" by arith

lemma u3_e: "(u::nat) div 4096 = 13 \<longleftrightarrow> 53248 \<le> u \<and> u < 57344" by arith

lemma poly64: "q * 4096 + r * 64 = (q * 64 + r) * (64::nat)"
  by (simp add: algebra_simps)

lemma u3_f: "(u::nat) div 4096 * 4096 + (u div 64 mod 64 * 64 + u mod 64) = u"
proof -
  have "u div 4096 = u div 64 div 64" by (simp add: div_mult2_eq)
  then have "u div 4096 * 4096 + u div 64 mod 64 * 64 = (u div 64 div 64 * 64 + u div 64 mod 64) * 64"
    by (simp only: poly64)
  also have "\<dots> = u div 64 * 64" by (simp only: div_mult_mod_eq)
  finally have "u div 4096 * 4096 + u div 64 mod 64 * 64 + u mod 64 = u div 64 * 64 + u mod 64"
    by simp
  then show ?thesis by (simp only: div_mult_mod_eq add.assoc)
qed

lemma u3_f': "(u::nat) div 4096 * 4096 + u div 64 mod 64 * 64 + u mod 64 = u"
  using u3_f [of u] by (simp only: add.assoc)

lemma decode3_bytes:
  assumes "224 \<le> b" "b \<le> 239"
    and "continuation (if b = 224 then 160 else 128) (if b = 237 then 159 else 191) c1"
    and "continuation 128 191 c2"
  shows "utf8_decode (b # c1 # c2 # rest)
         = ((b - 224) * 4096 + (c1 - 128) * 64 + (c2 - 128)) # utf8_decode rest"
  using assms by simp

lemma decode3:
  assumes "2048 \<le> u" "u < 65536" "\<not> high_surrogate u" "\<not> low_surrogate u"
  shows "utf8_decode (utf8_3 u @ rest) = u # utf8_decode rest"
proof -
  have 1: "u div 4096 \<le> 15" using assms by (simp add: u3_a)
  have 2: "u div 4096 = 0 \<Longrightarrow> 32 \<le> (u div 64) mod 64" using assms by (simp add: u3_b u3_d)
  have 3: "u div 4096 = 13 \<Longrightarrow> (u div 64) mod 64 \<le> 31"
    using assms by (auto simp: u3_e high_surrogate_def low_surrogate_def intro!: u3_c)
  have 4: "(u div 64) mod 64 \<le> 63" by simp
  have c1: "continuation (if 224 + u div 4096 = 224 then 160 else 128)
              (if 224 + u div 4096 = 237 then 159 else 191) (128 + (u div 64) mod 64)"
    using 2 3 4 by (auto simp: continuation_def)
  have c2: "continuation 128 191 (128 + u mod 64)"
    by (simp add: continuation_def)
  have "utf8_decode ((224 + u div 4096) # (128 + (u div 64) mod 64) # (128 + u mod 64) # rest)
        = ((224 + u div 4096 - 224) * 4096 + (128 + (u div 64) mod 64 - 128) * 64 + (128 + u mod 64 - 128))
          # utf8_decode rest"
    using 1 by (intro decode3_bytes c1 c2) simp_all
  then show ?thesis
    by (simp add: utf8_3_def u3_f')
qed

lemma pair_bound: "x < 1024 \<Longrightarrow> y < 1024 \<Longrightarrow> 65536 + x * 1024 + y < (1114112::nat)"
  by arith

lemma surrogate_offsets:
  assumes "high_surrogate u" "low_surrogate l"
  obtains x y where "u = 55296 + x" "l = 56320 + y" "x < 1024" "y < 1024"
proof -
  have "55296 \<le> u" "u < 56320" "56320 \<le> l" "l < 57344"
    using assms by (auto simp: high_surrogate_def low_surrogate_def)
  then have "u = 55296 + (u - 55296)" "l = 56320 + (l - 56320)" "u - 55296 < 1024" "l - 56320 < 1024"
    by arith+
  then show thesis by (rule that)
qed

lemma u4_range:
  assumes "high_surrogate u" "low_surrogate l"
  shows "65536 \<le> 65536 + (u - 55296) * 1024 + (l - 56320)"
    and "65536 + (u - 55296) * 1024 + (l - 56320) < 1114112"
proof -
  obtain x y where "u = 55296 + x" "l = 56320 + y" "x < 1024" "y < 1024"
    using assms by (rule surrogate_offsets)
  then show "65536 + (u - 55296) * 1024 + (l - 56320) < 1114112"
    by (simp add: pair_bound)
qed simp

lemma u4_units:
  assumes "high_surrogate u" "low_surrogate l"
  shows "utf16_units (65536 + (u - 55296) * 1024 + (l - 56320)) = [u, l]"
proof -
  obtain x y where "u = 55296 + x" "l = 56320 + y" "x < 1024" "y < 1024"
    using assms by (rule surrogate_offsets)
  then show ?thesis
    by (simp add: utf16_units_def)
qed

lemma decode4_bytes:
  assumes "240 \<le> b" "b \<le> 244"
    and "continuation (if b = 240 then 144 else 128) (if b = 244 then 143 else 191) c1"
    and "continuation 128 191 c2" "continuation 128 191 c3"
  shows "utf8_decode (b # c1 # c2 # c3 # rest)
         = utf16_units ((b - 240) * 262144 + (c1 - 128) * 4096 + (c2 - 128) * 64 + (c3 - 128))
           @ utf8_decode rest"
  using assms by simp

lemma poly4096: "q * 262144 + r * 4096 = (q * 64 + r) * (4096::nat)"
  by (simp add: algebra_simps)

lemma u4_f: "(c::nat) div 262144 * 262144 + c div 4096 mod 64 * 4096 + c div 64 mod 64 * 64 + c mod 64 = c"
proof -
  have "c div 262144 = c div 4096 div 64" by (simp add: div_mult2_eq)
  then have "c div 262144 * 262144 + c div 4096 mod 64 * 4096 = (c div 4096 div 64 * 64 + c div 4096 mod 64) * 4096"
    by (simp only: poly4096)
  also have "\<dots> = c div 4096 * 4096" by (simp only: div_mult_mod_eq)
  finally have "c div 262144 * 262144 + c div 4096 mod 64 * 4096 + c div 64 mod 64 * 64 + c mod 64
                = c div 4096 * 4096 + c div 64 mod 64 * 64 + c mod 64"
    by simp
  then show ?thesis by (simp only: u3_f')
qed

lemma u4_a: "(c::nat) < 1114112 \<Longrightarrow> c div 262144 \<le> 4" by arith

lemma u4_d: "(c::nat) div 262144 = 0 \<longleftrightarrow> c < 262144" by arith

lemma u4_e: "(c::nat) div 262144 = 4 \<longleftrightarrow> 1048576 \<le> c \<and> c < 1310720" by arith

lemma u4_b:
  assumes "65536 \<le> (c::nat)" "c < 262144"
  shows "16 \<le> (c div 4096) mod 64"
proof -
  have "16 \<le> c div 4096" "c div 4096 < 64" using assms by arith+
  then show ?thesis by simp
qed

lemma mod64_window': "256 \<le> (v::nat) \<Longrightarrow> v < 272 \<Longrightarrow> v mod 64 \<le> 15" by arith

lemma u4_c:
  assumes "1048576 \<le> (c::nat)" "c < 1114112"
  shows "(c div 4096) mod 64 \<le> 15"
proof -
  have "256 \<le> c div 4096" "c div 4096 < 272" using assms by arith+
  then show ?thesis by (rule mod64_window')
qed

lemma decode4:
  assumes "65536 \<le> c" "c < 1114112"
  shows "utf8_decode (utf8_4 c @ rest) = utf16_units c @ utf8_decode rest"
proof -
  have 1: "c div 262144 \<le> 4" using assms by (simp add: u4_a)
  have 2: "c div 262144 = 0 \<Longrightarrow> 16 \<le> (c div 4096) mod 64" using assms by (simp add: u4_b u4_d)
  have 3: "c div 262144 = 4 \<Longrightarrow> (c div 4096) mod 64 \<le> 15"
    using assms by (auto simp: u4_e intro!: u4_c)
  have 4: "(c div 4096) mod 64 \<le> 63" by simp
  have c1: "continuation (if 240 + c div 262144 = 240 then 144 else 128)
              (if 240 + c div 262144 = 244 then 143 else 191) (128 + (c div 4096) mod 64)"
    using 2 3 4 by (auto simp: continuation_def)
  have c2: "continuation 128 191 (128 + (c div 64) mod 64)"
    by (simp add: continuation_def)
  have c3: "continuation 128 191 (128 + c mod 64)"
    by (simp add: continuation_def)
  have "utf8_decode ((240 + c div 262144) # (128 + (c div 4096) mod 64) # (128 + (c div 64) mod 64)
                     # (128 + c mod 64) # rest)
        = utf16_units ((240 + c div 262144 - 240) * 262144 + (128 + (c div 4096) mod 64 - 128) * 4096
                       + (128 + (c div 64) mod 64 - 128) * 64 + (128 + c mod 64 - 128))
          @ utf8_decode rest"
    using 1 by (intro decode4_bytes c1 c2 c3) simp_all
  then show ?thesis
    by (simp add: utf8_4_def u4_f)
qed

lemma utf8_decode_encode: "well_formed s \<Longrightarrow> utf8_decode (utf8_encode s) = s"
proof (induction s rule: well_formed.induct)
  case 1
  then show ?case by simp
next
  case (2 u us)
  show ?case
  proof (cases "high_surrogate u")
    case True
    with "2.prems" obtain l rest where us: "us = l # rest" and l: "low_surrogate l" and wf: "well_formed rest"
      by (auto split: list.splits)
    have ih: "utf8_decode (utf8_encode rest) = rest"
      using "2.IH"(1) [OF True us] wf by simp
    have big: "\<not> u < 128" "\<not> u < 2048" using True by (simp_all add: high_surrogate_def)
    have "utf8_encode (u # us) = utf8_4 (65536 + (u - 55296) * 1024 + (l - 56320)) @ utf8_encode rest"
      using True l big by (simp add: us)
    then show ?thesis
      using u4_range [OF True l] by (simp add: decode4 u4_units [OF True l] ih us)
  next
    case False
    with "2.prems" have low: "\<not> low_surrogate u" and bound: "u < 65536" and wf: "well_formed us"
      by simp_all
    have ih: "utf8_decode (utf8_encode us) = us"
      using "2.IH"(2) [OF False] wf by simp
    consider "u < 128" | "128 \<le> u" "u < 2048" | "2048 \<le> u" by linarith
    then show ?thesis
    proof cases
      case 1
      then show ?thesis by (simp add: ih)
    next
      case 2
      then show ?thesis by (simp add: decode2 ih del: utf8_decode.simps)
    next
      case 3
      then have "utf8_encode (u # us) = utf8_3 u @ utf8_encode us"
        using False low by simp
      then show ?thesis
        using 3 bound False low by (simp add: decode3 ih)
    qed
  qed
qed

subsection \<open>Quoted strings\<close>

lemma digit_val_hex_digit: "d < 16 \<Longrightarrow> digit_val 16 (hex_digit d) = Some d"
  by (auto simp: digit_val_def hex_digit_def Let_def)

lemma hex_digit_ascii: "d < 16 \<Longrightarrow> hex_digit d < 128"
  by (simp add: hex_digit_def)

lemma hex_weight: "((c::nat) div 4096 * 16 + c div 256 mod 16) * 16 + c div 16 mod 16 = c div 16"
proof -
  have "c div 4096 = c div 256 div 16" by (simp add: div_mult2_eq)
  then have "c div 4096 * 16 + c div 256 mod 16 = c div 256" by (simp only: div_mult_mod_eq)
  moreover have "c div 256 = c div 16 div 16" by (simp add: div_mult2_eq)
  ultimately have "(c div 4096 * 16 + c div 256 mod 16) * 16 + c div 16 mod 16
                   = c div 16 div 16 * 16 + c div 16 mod 16" by simp
  then show ?thesis by (simp only: div_mult_mod_eq)
qed

lemma hex_value: "(((c::nat) div 4096 * 16 + c div 256 mod 16) * 16 + c div 16 mod 16) * 16 + c mod 16 = c"
  by (simp only: hex_weight div_mult_mod_eq)

lemma div4096_16: "(c::nat) < 65536 \<Longrightarrow> c div 4096 < 16" by arith

lemma hex4_digits:
  assumes "a < 16" "b < 16" "c < 16" "d < 16"
  shows "hex4 (hex_digit a) (hex_digit b) (hex_digit c) (hex_digit d)
         = Some (((a * 16 + b) * 16 + c) * 16 + d)"
  using assms by (simp add: hex4_def digit_val_hex_digit)

lemma hex4_escape:
  assumes "c < 65536"
  shows "hex4 (hex_digit (c div 4096)) (hex_digit (c div 256 mod 16))
              (hex_digit (c div 16 mod 16)) (hex_digit (c mod 16)) = Some c"
proof -
  have "hex4 (hex_digit (c div 4096)) (hex_digit (c div 256 mod 16))
             (hex_digit (c div 16 mod 16)) (hex_digit (c mod 16))
        = Some (((c div 4096 * 16 + c div 256 mod 16) * 16 + c div 16 mod 16) * 16 + c mod 16)"
    using div4096_16 [OF assms] by (intro hex4_digits) simp_all
  then show ?thesis by (simp only: hex_value)
qed

lemma string_body_escape:
  assumes "c < 65536"
  shows "string_body (unicode_escape c @ cs) = cons_fst c (string_body cs)"
  using hex4_escape [OF assms] by (simp add: unicode_escape_def simple_escape_def)

lemma string_body_quote_body: "string_body (quote_body s @ 34 # rest) = Some (s, rest)"
proof (induction "length s" arbitrary: s rule: less_induct)
  case less
  show ?case
  proof (cases s)
    case Nil
    then show ?thesis by simp
  next
    case (Cons c cs)
    have ih: "string_body (quote_body t @ 34 # rest) = Some (t, rest)" if "length t \<le> length cs" for t
      using less that Cons by simp
    have ih_cs: "string_body (quote_body cs @ 34 # rest) = Some (cs, rest)"
      by (rule ih) simp
    consider "c = 8" | "c = 9" | "c = 10" | "c = 12" | "c = 13" | "c = 34" | "c = 92"
      | (control) "c < 32" "c \<noteq> 8" "c \<noteq> 9" "c \<noteq> 10" "c \<noteq> 12" "c \<noteq> 13"
      | (high) "high_surrogate c"
      | (low) "low_surrogate c"
      | (plain) "\<not> c < 32" "c \<noteq> 34" "c \<noteq> 92" "\<not> high_surrogate c" "\<not> low_surrogate c"
      by (cases "c < 32") auto
    then show ?thesis
    proof cases
      case 1 then show ?thesis by (simp add: Cons ih_cs simple_escape_def cons_fst_def)
    next
      case 2 then show ?thesis by (simp add: Cons ih_cs simple_escape_def cons_fst_def)
    next
      case 3 then show ?thesis by (simp add: Cons ih_cs simple_escape_def cons_fst_def)
    next
      case 4 then show ?thesis by (simp add: Cons ih_cs simple_escape_def cons_fst_def)
    next
      case 5 then show ?thesis by (simp add: Cons ih_cs simple_escape_def cons_fst_def)
    next
      case 6 then show ?thesis by (simp add: Cons ih_cs simple_escape_def cons_fst_def)
    next
      case 7 then show ?thesis by (simp add: Cons ih_cs simple_escape_def cons_fst_def)
    next
      case control
      then have "quote_body (c # cs) = unicode_escape c @ quote_body cs" by simp
      moreover have "c < 65536" using control by simp
      ultimately show ?thesis
        by (simp add: Cons string_body_escape ih_cs cons_fst_def del: quote_body.simps string_body.simps)
    next
      case high
      then have c: "c < 65536" "\<not> c < 32" "c \<noteq> 34" "c \<noteq> 92" "c \<noteq> 8" "c \<noteq> 9" "c \<noteq> 10" "c \<noteq> 12" "c \<noteq> 13"
        by (simp_all add: high_surrogate_def)
      show ?thesis
      proof (cases "\<exists>l r. cs = l # r \<and> low_surrogate l")
        case True
        then obtain l r where cs: "cs = l # r" and l: "low_surrogate l" by blast
        have l': "\<not> l < 32" "l \<noteq> 34" "l \<noteq> 92" using l by (simp_all add: low_surrogate_def)
        have "quote_body (c # cs) = c # l # quote_body r"
          using high c l by (simp add: cs)
        moreover have "string_body (quote_body r @ 34 # rest) = Some (r, rest)"
          by (rule ih) (simp add: cs)
        ultimately show ?thesis
          using c l' by (simp add: Cons cs cons_fst_def del: quote_body.simps)
      next
        case False
        then have "quote_body (c # cs) = unicode_escape c @ quote_body cs"
          using high c by (cases cs) auto
        then show ?thesis
          using c by (simp add: Cons string_body_escape ih_cs cons_fst_def del: quote_body.simps string_body.simps)
      qed
    next
      case low
      then have c: "c < 65536" "\<not> c < 32" "c \<noteq> 34" "c \<noteq> 92" "c \<noteq> 8" "c \<noteq> 9" "c \<noteq> 10" "c \<noteq> 12" "c \<noteq> 13"
        "\<not> high_surrogate c"
        by (simp_all add: low_surrogate_def high_surrogate_def)
      then have "quote_body (c # cs) = unicode_escape c @ quote_body cs"
        using low by simp
      then show ?thesis
        using c by (simp add: Cons string_body_escape ih_cs cons_fst_def del: quote_body.simps string_body.simps)
    next
      case plain
      then have "c \<noteq> 8" "c \<noteq> 9" "c \<noteq> 10" "c \<noteq> 12" "c \<noteq> 13" by auto
      then have "quote_body (c # cs) = c # quote_body cs"
        using plain by simp
      then show ?thesis
        using plain by (simp add: Cons ih_cs cons_fst_def del: quote_body.simps)
    qed
  qed
qed

subsection \<open>Numbers\<close>

lemma closes_not_digit: "closes rest \<Longrightarrow> takeWhile is_digit rest = [] \<and> dropWhile is_digit rest = rest"
  by (cases rest) (auto simp: closes_def is_digit_def)

lemma digits_append:
  "closes rest \<Longrightarrow> takeWhile is_digit (r @ rest) = takeWhile is_digit r
                    \<and> dropWhile is_digit (r @ rest) = dropWhile is_digit r @ rest"
  by (induction r) (simp_all add: closes_not_digit)

lemma scan_int_append:
  "scan_int a = Some (p, q) \<Longrightarrow> closes rest \<Longrightarrow> scan_int (a @ rest) = Some (p, q @ rest)"
  by (cases a) (auto simp: scan_int_def digits_append split: if_splits)

lemma closes_head: "closes rest \<Longrightarrow> rest = c # t \<Longrightarrow> c = 44 \<or> c = 93 \<or> c = 125"
  by (auto simp: closes_def)

lemma scan_frac_append:
  assumes "scan_frac a = Some (p, q)" "closes rest"
  shows "scan_frac (a @ rest) = Some (p, q @ rest)"
proof (cases a)
  case Nil
  then have "p = []" "q = []" using assms(1) by (simp_all add: scan_frac_def)
  then show ?thesis
    using Nil closes_head [OF assms(2)] by (cases rest) (auto simp: scan_frac_def)
next
  case (Cons c r)
  then show ?thesis
    using assms by (auto simp: scan_frac_def digits_append split: if_splits)
qed

lemma scan_exp_append:
  assumes "scan_exp a = Some (p, q)" "closes rest"
  shows "scan_exp (a @ rest) = Some (p, q @ rest)"
proof (cases a)
  case Nil
  then have "p = []" "q = []" using assms(1) by (simp_all add: scan_exp_def)
  then show ?thesis
    using Nil closes_head [OF assms(2)] by (cases rest) (auto simp: scan_exp_def)
next
  case (Cons c r)
  show ?thesis
  proof (cases "c = 101 \<or> c = 69")
    case False
    then show ?thesis using assms Cons by (auto simp: scan_exp_def)
  next
    case True
    define sign where "sign = (if r \<noteq> [] \<and> (hd r = 43 \<or> hd r = 45) then [hd r] else [])"
    have some: "takeWhile is_digit (drop (length sign) r) \<noteq> []"
      and p: "p = c # sign @ takeWhile is_digit (drop (length sign) r)"
      and q: "q = dropWhile is_digit (drop (length sign) r)"
      using assms(1) Cons True by (auto simp: scan_exp_def Let_def sign_def split: if_splits)
    have r: "r \<noteq> []" using some by auto
    have sign': "(if r @ rest \<noteq> [] \<and> (hd (r @ rest) = 43 \<or> hd (r @ rest) = 45) then [hd (r @ rest)] else []) = sign"
      using r by (simp add: sign_def)
    have len: "length sign \<le> length r"
      using r by (cases r) (simp_all add: sign_def)
    have "scan_exp (c # r @ rest)
          = (if takeWhile is_digit (drop (length sign) (r @ rest)) = [] then None
             else Some (c # sign @ takeWhile is_digit (drop (length sign) (r @ rest)),
                        dropWhile is_digit (drop (length sign) (r @ rest))))"
      using True sign' by (simp add: scan_exp_def Let_def)
    moreover have "drop (length sign) (r @ rest) = drop (length sign) r @ rest"
      using len by simp
    ultimately show ?thesis
      using some p q Cons by (simp add: digits_append [OF assms(2)])
  qed
qed

lemma scan_number_parts:
  assumes "scan_number l = Some (p, q)"
  shows "\<exists>i r1 f r2 e.
           scan_int (drop (length (if l \<noteq> [] \<and> hd l = 45 then [45::nat] else [])) l) = Some (i, r1)
           \<and> scan_frac r1 = Some (f, r2) \<and> scan_exp r2 = Some (e, q)
           \<and> p = (if l \<noteq> [] \<and> hd l = 45 then [45::nat] else []) @ i @ f @ e"
proof -
  let ?minus = "if l \<noteq> [] \<and> hd l = 45 then [45::nat] else []"
  obtain i r1 where i: "scan_int (drop (length ?minus) l) = Some (i, r1)"
    using assms by (cases "scan_int (drop (length ?minus) l)") (auto simp: scan_number_def Let_def)
  obtain f r2 where f: "scan_frac r1 = Some (f, r2)"
    using assms i by (cases "scan_frac r1") (auto simp: scan_number_def Let_def)
  obtain e r3 where e: "scan_exp r2 = Some (e, r3)"
    using assms i f by (cases "scan_exp r2") (auto simp: scan_number_def Let_def)
  have "p = ?minus @ i @ f @ e" "q = r3"
    using assms i f e by (simp_all add: scan_number_def Let_def)
  then show ?thesis using i f e by blast
qed

lemma scan_number_append:
  assumes "scan_number l = Some (l, [])" "closes rest"
  shows "scan_number (l @ rest) = Some (l, rest)"
proof -
  define minus where "minus = (if l \<noteq> [] \<and> hd l = 45 then [45::nat] else [])"
  obtain i r1 f r2 e where
    i: "scan_int (drop (length minus) l) = Some (i, r1)" and f: "scan_frac r1 = Some (f, r2)"
    and e: "scan_exp r2 = Some (e, [])" and l: "l = minus @ i @ f @ e"
    using scan_number_parts [OF assms(1)] unfolding minus_def by blast
  have ne: "l \<noteq> []"
    using i by (auto simp: scan_int_def)
  have minus': "(if l @ rest \<noteq> [] \<and> hd (l @ rest) = 45 then [45::nat] else []) = minus"
    using ne by (simp add: minus_def)
  have "length minus \<le> length l"
    using ne by (cases l) (simp_all add: minus_def)
  then have "drop (length minus) (l @ rest) = drop (length minus) l @ rest"
    by simp
  then have "scan_int (drop (length minus) (l @ rest)) = Some (i, r1 @ rest)"
    using scan_int_append [OF i assms(2)] by simp
  moreover have "scan_frac (r1 @ rest) = Some (f, r2 @ rest)"
    by (rule scan_frac_append [OF f assms(2)])
  moreover have "scan_exp (r2 @ rest) = Some (e, [] @ rest)"
    by (rule scan_exp_append [OF e assms(2)])
  ultimately have "scan_number (l @ rest) = Some (minus @ i @ f @ e, rest)"
    using minus' by (simp add: scan_number_def Let_def)
  then show ?thesis using l by simp
qed

lemma scan_number_head:
  assumes "scan_number l = Some (l, [])"
  shows "\<exists>c t. l = c # t \<and> (c = 45 \<or> is_digit c)"
proof -
  define minus where "minus = (if l \<noteq> [] \<and> hd l = 45 then [45::nat] else [])"
  obtain i r1 where i: "scan_int (drop (length minus) l) = Some (i, r1)"
    using scan_number_parts [OF assms] unfolding minus_def by blast
  then obtain c t where l: "l = c # t"
    by (cases l) (auto simp: scan_int_def)
  show ?thesis
  proof (cases "c = 45")
    case True
    then show ?thesis using l by simp
  next
    case False
    then have "minus = []" using l by (simp add: minus_def)
    then have "is_digit c"
      using i l by (auto simp: scan_int_def is_digit_def split: if_splits)
    then show ?thesis using l by simp
  qed
qed

lemma digits_ascii: "list_all (\<lambda>c. c < 128) (takeWhile is_digit r)"
  by (induction r) (simp_all add: is_digit_def)

lemma scan_int_ascii: "scan_int a = Some (p, q) \<Longrightarrow> list_all (\<lambda>c. c < 128) p"
  by (cases a) (auto simp: scan_int_def digits_ascii split: if_splits)

lemma scan_frac_ascii: "scan_frac a = Some (p, q) \<Longrightarrow> list_all (\<lambda>c. c < 128) p"
  by (cases a) (auto simp: scan_frac_def digits_ascii split: if_splits)

lemma scan_exp_ascii: "scan_exp a = Some (p, q) \<Longrightarrow> list_all (\<lambda>c. c < 128) p"
  by (cases a) (auto simp: scan_exp_def Let_def digits_ascii split: if_splits)

lemma scan_number_ascii:
  assumes "scan_number l = Some (p, q)"
  shows "list_all (\<lambda>c. c < 128) p"
proof -
  define minus where "minus = (if l \<noteq> [] \<and> hd l = 45 then [45::nat] else [])"
  obtain i r1 f r2 e where
    "scan_int (drop (length minus) l) = Some (i, r1)" "scan_frac r1 = Some (f, r2)"
    "scan_exp r2 = Some (e, q)" "p = minus @ i @ f @ e"
    using scan_number_parts [OF assms] unfolding minus_def by blast
  moreover have "list_all (\<lambda>c. c < 128) minus"
    by (simp add: minus_def)
  ultimately show ?thesis
    by (auto dest: scan_int_ascii scan_frac_ascii scan_exp_ascii)
qed

lemma parse_number:
  assumes "scan_number l = Some (l, [])" "closes rest"
  shows "parse_value (Suc n) (l @ rest) = Parsed (JNum l) rest"
proof -
  obtain c t where l: "l = c # t" and c: "c = 45 \<or> is_digit c"
    using scan_number_head [OF assms(1)] by blast
  have "\<not> json_ws c" "c \<noteq> 123" "c \<noteq> 91" "c \<noteq> 34"
    using c by (auto simp: json_ws_def is_digit_def)
  moreover have "scan_number (c # t @ rest) = Some (l, rest)"
    using scan_number_append [OF assms] by (simp add: l)
  ultimately show ?thesis
    using c by (simp add: l skip_ws_def del: scan_number_def)
qed

lemma plain_stable: "plain_json v \<Longrightarrow> stable_json r v"
  by (induction v) (auto simp: list_all_iff)

subsection \<open>Well-formed text\<close>

lemma well_formed_append: "well_formed a \<Longrightarrow> well_formed b \<Longrightarrow> well_formed (a @ b)"
proof (induction a rule: well_formed.induct)
  case 1
  then show ?case by simp
next
  case (2 u us)
  show ?case
  proof (cases "high_surrogate u")
    case True
    with "2.prems" obtain l rest where us: "us = l # rest" and l: "low_surrogate l" and wf: "well_formed rest"
      by (auto split: list.splits)
    have "well_formed (rest @ b)"
      using "2.IH"(1) [OF True us] wf "2.prems"(2) by simp
    then show ?thesis using True l by (simp add: us)
  next
    case False
    then show ?thesis using 2 by simp
  qed
qed

lemma well_formed_ascii: "list_all (\<lambda>c. c < 128) a \<Longrightarrow> well_formed a"
  by (induction a) (auto simp: high_surrogate_def low_surrogate_def)

lemma well_formed_escape: "c < 65536 \<Longrightarrow> well_formed (unicode_escape c)"
  by (rule well_formed_ascii) (simp add: unicode_escape_def hex_digit_ascii div4096_16)

lemma well_formed_quote_body: "utf16 s \<Longrightarrow> well_formed (quote_body s)"
proof (induction "length s" arbitrary: s rule: less_induct)
  case less
  show ?case
  proof (cases s)
    case Nil
    then show ?thesis by simp
  next
    case (Cons c cs)
    have c16: "c < 65536" and cs16: "utf16 cs"
      using less.prems Cons by (simp_all add: utf16_def)
    have ih: "well_formed (quote_body t)" if "length t \<le> length cs" "utf16 t" for t
      using less.hyps that Cons by simp
    have ih_cs: "well_formed (quote_body cs)"
      by (rule ih) (simp_all add: cs16)
    have esc: "well_formed (unicode_escape c @ quote_body cs)"
      by (intro well_formed_append well_formed_escape c16 ih_cs)
    have two: "well_formed ([92, x] @ quote_body cs)" if "x < 128" for x
      by (intro well_formed_append well_formed_ascii ih_cs) (simp add: that)
    consider "c = 8" | "c = 9" | "c = 10" | "c = 12" | "c = 13" | "c = 34" | "c = 92"
      | (control) "c < 32" "c \<noteq> 8" "c \<noteq> 9" "c \<noteq> 10" "c \<noteq> 12" "c \<noteq> 13"
      | (high) "high_surrogate c"
      | (low) "low_surrogate c"
      | (plain) "\<not> c < 32" "c \<noteq> 34" "c \<noteq> 92" "\<not> high_surrogate c" "\<not> low_surrogate c"
      by (cases "c < 32") auto
    then show ?thesis
    proof cases
      case 1 then show ?thesis using two [of 98] by (simp add: Cons)
    next
      case 2 then show ?thesis using two [of 116] by (simp add: Cons)
    next
      case 3 then show ?thesis using two [of 110] by (simp add: Cons)
    next
      case 4 then show ?thesis using two [of 102] by (simp add: Cons)
    next
      case 5 then show ?thesis using two [of 114] by (simp add: Cons)
    next
      case 6 then show ?thesis using two [of 34] by (simp add: Cons)
    next
      case 7 then show ?thesis using two [of 92] by (simp add: Cons)
    next
      case control
      then have "quote_body (c # cs) = unicode_escape c @ quote_body cs" by simp
      then show ?thesis using esc by (simp add: Cons del: quote_body.simps)
    next
      case high
      then have c: "\<not> c < 32" "c \<noteq> 34" "c \<noteq> 92" "c \<noteq> 8" "c \<noteq> 9" "c \<noteq> 10" "c \<noteq> 12" "c \<noteq> 13"
        by (simp_all add: high_surrogate_def)
      show ?thesis
      proof (cases "\<exists>l r. cs = l # r \<and> low_surrogate l")
        case True
        then obtain l r where cs: "cs = l # r" and l: "low_surrogate l" by blast
        have "quote_body (c # cs) = c # l # quote_body r"
          using high c l by (simp add: cs)
        moreover have "well_formed (quote_body r)"
          using cs16 by (intro ih) (simp_all add: cs utf16_def)
        ultimately show ?thesis
          using high l by (simp add: Cons del: quote_body.simps)
      next
        case False
        then have "quote_body (c # cs) = unicode_escape c @ quote_body cs"
          using high c by (cases cs) auto
        then show ?thesis using esc by (simp add: Cons del: quote_body.simps)
      qed
    next
      case low
      then have c: "\<not> c < 32" "c \<noteq> 34" "c \<noteq> 92" "c \<noteq> 8" "c \<noteq> 9" "c \<noteq> 10" "c \<noteq> 12" "c \<noteq> 13"
        "\<not> high_surrogate c"
        by (simp_all add: low_surrogate_def high_surrogate_def)
      then have "quote_body (c # cs) = unicode_escape c @ quote_body cs"
        using low by simp
      then show ?thesis using esc by (simp add: Cons del: quote_body.simps)
    next
      case plain
      then have "c \<noteq> 8" "c \<noteq> 9" "c \<noteq> 10" "c \<noteq> 12" "c \<noteq> 13" by auto
      then have "quote_body (c # cs) = c # quote_body cs"
        using plain by simp
      then show ?thesis
        using plain c16 ih_cs by (simp add: Cons del: quote_body.simps)
    qed
  qed
qed

lemma well_formed_quote: "utf16 s \<Longrightarrow> well_formed (quote s)"
  unfolding quote_def
  by (intro well_formed_append well_formed_quote_body well_formed_ascii) simp_all

lemma well_formed_join:
  "well_formed sep \<Longrightarrow> list_all well_formed xs \<Longrightarrow> well_formed (join_with sep xs)"
  by (induction sep xs rule: join_with.induct) (simp_all add: well_formed_append)

lemma well_formed_wrap:
  "c < 128 \<Longrightarrow> d < 128 \<Longrightarrow> well_formed m \<Longrightarrow> well_formed ([c] @ m @ [d])"
  by (rule well_formed_append [OF well_formed_ascii well_formed_append [OF _ well_formed_ascii]])
     simp_all

lemma well_formed_stringify: "stable_json r v \<Longrightarrow> well_formed (JSON_stringify r v)"
proof (induction v)
  case JNull
  show ?case by (simp del: well_formed.simps, rule well_formed_ascii) (simp add: js_def)
next
  case (JBool b)
  show ?case by (cases b; simp del: well_formed.simps; rule well_formed_ascii) (simp_all add: js_def)
next
  case (JNum lexeme)
  then have "JSON_stringify r (JNum lexeme) = lexeme" "list_all (\<lambda>c. c < 128) lexeme"
    by (auto simp: number_text_def dest: scan_number_ascii)
  then show ?case by (simp only: well_formed_ascii)
next
  case (JStr s)
  then show ?case by (simp add: well_formed_quote)
next
  case (JArr xs)
  then have "list_all well_formed (map (JSON_stringify r) xs)"
    by (simp add: list_all_iff)
  then have "well_formed (join_with [44] (map (JSON_stringify r) xs))"
    by (intro well_formed_join well_formed_ascii) simp_all
  then show ?case
    unfolding JSON_stringify.simps by (intro well_formed_wrap) simp_all
next
  case (JObj kvs)
  have "well_formed (quote k @ [58] @ JSON_stringify r v)" if "(k, v) \<in> set kvs" for k v
  proof -
    have "utf16 k" "stable_json r v"
      using JObj.prems that by (auto simp: list_all_iff)
    moreover have "well_formed (JSON_stringify r v)"
      using JObj.IH that \<open>stable_json r v\<close> by fastforce
    ultimately show ?thesis
      by (intro well_formed_append [OF well_formed_quote well_formed_append [OF well_formed_ascii]])
         simp_all
  qed
  then have "list_all well_formed (map (\<lambda>(k, v). quote k @ [58] @ JSON_stringify r v) kvs)"
    by (auto simp: list_all_iff)
  then have "well_formed (join_with [44] (map (\<lambda>(k, v). quote k @ [58] @ JSON_stringify r v) kvs))"
    by (intro well_formed_join well_formed_ascii) simp_all
  then show ?case
    unfolding JSON_stringify.simps by (intro well_formed_wrap) simp_all
qed

lemma div64_32: "(u::nat) < 2048 \<Longrightarrow> u div 64 < 64" by arith

lemma div262144_5: "(c::nat) < 1114112 \<Longrightarrow> c div 262144 < 5" by arith

lemma mod64_128: "(x::nat) mod 64 < 128"
  by (rule less_trans [of _ 64]) simp_all

lemma utf8_4_bytes: "c < 1114112 \<Longrightarrow> list_all (\<lambda>b. b < 256) (utf8_4 c)"
  using div262144_5 [of c] by (simp add: utf8_4_def mod64_128)

lemma utf8_3_bytes: "u < 65536 \<Longrightarrow> list_all (\<lambda>b. b < 256) (utf8_3 u)"
  using div4096_16 [of u] by (simp add: utf8_3_def mod64_128)

lemma utf8_encode_bytes: "well_formed s \<Longrightarrow> list_all (\<lambda>b. b < 256) (utf8_encode s)"
proof (induction s rule: well_formed.induct)
  case 1
  then show ?case by simp
next
  case (2 u us)
  show ?case
  proof (cases "high_surrogate u")
    case True
    with "2.prems" obtain l rest where us: "us = l # rest" and l: "low_surrogate l" and wf: "well_formed rest"
      by (auto split: list.splits)
    have ih: "list_all (\<lambda>b. b < 256) (utf8_encode rest)"
      using "2.IH"(1) [OF True us] wf by simp
    have big: "\<not> u < 128" "\<not> u < 2048" using True by (simp_all add: high_surrogate_def)
    have "55296 \<le> u" "u < 56320" "56320 \<le> l" "l < 57344"
      using True l by (auto simp: high_surrogate_def low_surrogate_def)
    then have "65536 + (u - 55296) * 1024 + (l - 56320) < 1114112" by arith
    then have "list_all (\<lambda>b. b < 256) (utf8_4 (65536 + (u - 55296) * 1024 + (l - 56320)))"
      by (rule utf8_4_bytes)
    then show ?thesis
      using True l big ih by (simp add: us)
  next
    case False
    with "2.prems" have low: "\<not> low_surrogate u" and bound: "u < 65536" and wf: "well_formed us"
      by simp_all
    have ih: "list_all (\<lambda>b. b < 256) (utf8_encode us)"
      using "2.IH"(2) [OF False] wf by simp
    have "u < 2048 \<Longrightarrow> u div 64 < 64" by (rule div64_32)
    then show ?thesis
      using False low ih utf8_3_bytes [OF bound] by (simp add: mod64_128)
  qed
qed

subsection \<open>Parsing what was printed\<close>

lemma skip_ws_head: "\<not> json_ws c \<Longrightarrow> skip_ws (c # cs) = c # cs"
  by (simp add: skip_ws_def)

lemma quote_head: "quote s = 34 # quote_body s @ [34]"
  by (simp add: quote_def)

lemma stringify_head: "stable_json r v \<Longrightarrow> \<exists>c t. JSON_stringify r v = c # t \<and> opener c"
proof (cases v)
  case (JNum lexeme)
  assume "stable_json r v"
  then have "JSON_stringify r v = lexeme" "scan_number lexeme = Some (lexeme, [])"
    by (simp_all add: JNum number_text_def)
  then show ?thesis
    using scan_number_head [of lexeme] by (auto simp: opener_def)
qed (auto simp: js_def quote_head opener_def)

lemma opener_facts:
  assumes "opener c"
  shows "\<not> json_ws c" "c \<noteq> 93" "c \<noteq> 125" "c \<noteq> 44"
  using assms by (auto simp: opener_def json_ws_def is_digit_def)

lemma put_property_new: "k \<notin> fst ` set acc \<Longrightarrow> put_property acc k v = acc @ [(k, v)]"
  by (induction acc) auto

lemma foldl_put_property:
  "distinct (map fst (acc @ kvs)) \<Longrightarrow>
   foldl (\<lambda>acc (k, v). put_property acc k v) acc kvs = acc @ kvs"
proof (induction kvs arbitrary: acc)
  case Nil
  then show ?case by simp
next
  case (Cons kv kvs)
  obtain k v where kv: "kv = (k, v)" by (cases kv)
  have new: "k \<notin> fst ` set acc" using Cons.prems by (auto simp: kv)
  have "distinct (map fst ((acc @ [(k, v)]) @ kvs))" using Cons.prems by (simp add: kv)
  then have "foldl (\<lambda>acc (k, v). put_property acc k v) (acc @ [(k, v)]) kvs = (acc @ [(k, v)]) @ kvs"
    by (rule Cons.IH)
  then show ?case by (simp add: kv put_property_new [OF new])
qed

lemma object_of_distinct: "distinct (map fst kvs) \<Longrightarrow> object_of kvs = JObj kvs"
  using foldl_put_property [of "[]" kvs] by (simp add: object_of_def)

lemma parse_atoms:
  "parse_value (Suc n) (js ''null'' @ rest) = Parsed JNull rest"
  "parse_value (Suc n) (js ''true'' @ rest) = Parsed (JBool True) rest"
  "parse_value (Suc n) (js ''false'' @ rest) = Parsed (JBool False) rest"
  by (simp_all add: js_def skip_ws_def json_ws_def is_digit_def strip_prefix_def)

lemma parse_string:
  "parse_value (Suc n) (quote s @ rest) = Parsed (JStr s) rest"
  by (simp add: quote_head skip_ws_def json_ws_def string_body_quote_body)

lemma join_head:
  assumes "xs \<noteq> []" "\<exists>c t. f (hd xs) = c # t \<and> opener c"
  shows "\<exists>c t. join_with sep (map f xs) = c # t \<and> opener c"
proof (cases xs)
  case Nil
  then show ?thesis using assms by simp
next
  case (Cons x ys)
  then show ?thesis using assms by (cases ys) auto
qed

lemma parse_elements_join:
  assumes "xs \<noteq> []"
    and each: "\<And>x n rest. x \<in> set xs \<Longrightarrow> closes rest \<Longrightarrow> length (f x) \<le> n
                 \<Longrightarrow> parse_value n (f x @ rest) = Parsed x rest"
    and fuel: "length (join_with [44] (map f xs)) + 1 \<le> n"
  shows "parse_elements n (join_with [44] (map f xs) @ 93 # rest) = Parsed xs rest"
  using assms
proof (induction xs arbitrary: n)
  case Nil
  then show ?case by simp
next
  case (Cons x ys)
  note prems = Cons.prems and IH = Cons.IH
  from prems(3) obtain m where n: "n = Suc m" by (cases n) auto
  show ?case
  proof (cases ys)
    case Nil
    have "length (f x) \<le> m" using prems(3) by (simp add: n Nil)
    then have "parse_value m (f x @ 93 # rest) = Parsed x (93 # rest)"
      by (intro prems(2)) (simp_all add: closes_def)
    then show ?thesis
      by (simp add: n Nil skip_ws_def json_ws_def)
  next
    case ys: (Cons y zs)
    have len: "length (join_with [44] (f x # map f ys)) = length (f x) + 1 + length (join_with [44] (map f ys))"
      by (simp add: ys)
    have "length (f x) \<le> m" using prems(3) by (simp add: n len)
    then have head: "parse_value m (f x @ 44 # join_with [44] (map f ys) @ 93 # rest)
                     = Parsed x (44 # join_with [44] (map f ys) @ 93 # rest)"
      by (intro prems(2)) (simp_all add: closes_def)
    have "length (join_with [44] (map f ys)) + 1 \<le> m" using prems(3) by (simp add: n len)
    then have tail: "parse_elements m (join_with [44] (map f ys) @ 93 # rest) = Parsed ys rest"
      using prems(2) by (intro IH) (simp_all add: ys)
    have "join_with [44] (f x # map f ys) @ 93 # rest = f x @ 44 # join_with [44] (map f ys) @ 93 # rest"
      by (simp add: ys)
    then show ?thesis
      by (simp add: n head tail skip_ws_def json_ws_def del: join_with.simps)
  qed
qed

lemma member_text_head: "\<exists>c t. member_text f kv = c # t \<and> opener c"
  by (simp add: member_text_def quote_head opener_def)

lemma parse_members_join:
  assumes "kvs \<noteq> []"
    and each: "\<And>k v n rest. (k, v) \<in> set kvs \<Longrightarrow> closes rest \<Longrightarrow> length (f v) \<le> n
                 \<Longrightarrow> parse_value n (f v @ rest) = Parsed v rest"
    and fuel: "length (join_with [44] (map (member_text f) kvs)) + 1 \<le> n"
  shows "parse_members n (join_with [44] (map (member_text f) kvs) @ 125 # rest) = Parsed kvs rest"
  using assms
proof (induction kvs arbitrary: n)
  case Nil
  then show ?case by simp
next
  case (Cons kv ys)
  note prems = Cons.prems and IH = Cons.IH
  obtain k v where kv: "kv = (k, v)" by (cases kv)
  from prems(3) obtain m where n: "n = Suc m" by (cases n) auto
  have key: "string_body (quote_body k @ 34 # 58 # t) = Some (k, 58 # t)" for t
    by (rule string_body_quote_body)
  show ?case
  proof (cases ys)
    case Nil
    have "length (f v) \<le> m" using prems(3) by (simp add: n Nil kv member_text_def)
    then have "parse_value m (f v @ 125 # rest) = Parsed v (125 # rest)"
      by (intro prems(2) [of k]) (simp_all add: kv closes_def)
    then show ?thesis
      by (simp add: n Nil kv member_text_def quote_head key skip_ws_def json_ws_def)
  next
    case ys: (Cons y zs)
    have len: "length (join_with [44] (member_text f kv # map (member_text f) ys))
               = length (member_text f kv) + 1 + length (join_with [44] (map (member_text f) ys))"
      by (simp add: ys)
    have "length (member_text f kv) + 1 + length (join_with [44] (map (member_text f) ys)) + 1 \<le> n"
      using prems(3) by (simp add: len)
    moreover have mt: "length (member_text f kv) = length (quote k) + 1 + length (f v)"
      by (simp add: kv member_text_def)
    ultimately have "length (f v) \<le> m" by (simp add: n)
    then have head: "parse_value m (f v @ 44 # join_with [44] (map (member_text f) ys) @ 125 # rest)
                     = Parsed v (44 # join_with [44] (map (member_text f) ys) @ 125 # rest)"
      by (intro prems(2) [of k]) (simp_all add: kv closes_def)
    have "length (join_with [44] (map (member_text f) ys)) + 1 \<le> m"
      using \<open>length (member_text f kv) + 1 + length (join_with [44] (map (member_text f) ys)) + 1 \<le> n\<close>
      by (simp add: n)
    then have tail: "parse_members m (join_with [44] (map (member_text f) ys) @ 125 # rest) = Parsed ys rest"
      using prems(2) by (intro IH) (auto simp: ys)
    have "join_with [44] (member_text f (k, v) # map (member_text f) ys) @ 125 # rest
          = 34 # quote_body k @ 34 # 58 # f v @ 44 # join_with [44] (map (member_text f) ys) @ 125 # rest"
      by (simp add: ys kv member_text_def quote_head)
    then show ?thesis
      by (simp add: n kv key head tail skip_ws_def json_ws_def del: join_with.simps)
  qed
qed

lemma stringify_object:
  "JSON_stringify r (JObj kvs) = 123 # join_with [44] (map (member_text (JSON_stringify r)) kvs) @ [125]"
proof -
  have "(\<lambda>(k, v). quote k @ [58] @ JSON_stringify r v) = member_text (JSON_stringify r)"
    by (auto simp: member_text_def fun_eq_iff)
  then show ?thesis by simp
qed

lemma parse_stringify:
  "stable_json r v \<Longrightarrow> length (JSON_stringify r v) \<le> n \<Longrightarrow> closes rest \<Longrightarrow>
   parse_value n (JSON_stringify r v @ rest) = Parsed v rest"
proof (induction v arbitrary: n rest)
  case JNull
  then obtain m where "n = Suc m" by (cases n) (auto simp: js_def)
  then show ?case by (simp add: parse_atoms del: parse_value.simps)
next
  case (JBool b)
  then obtain m where "n = Suc m" by (cases n) (auto simp: js_def split: if_splits)
  then show ?case by (simp add: parse_atoms del: parse_value.simps)
next
  case (JNum lexeme)
  then have printed: "JSON_stringify r (JNum lexeme) = lexeme" and l: "scan_number lexeme = Some (lexeme, [])"
    by (simp_all add: number_text_def)
  obtain c t where "lexeme = c # t"
    using scan_number_head [OF l] by blast
  then obtain m where "n = Suc m"
    using JNum.prems(2) printed by (cases n) auto
  then show ?case
    using parse_number [OF l JNum.prems(3)] by (simp only: printed)
next
  case (JStr s)
  then obtain m where "n = Suc m" by (cases n) (auto simp: quote_def)
  then show ?case by (simp add: parse_string del: parse_value.simps)
next
  case (JArr xs)
  from JArr.prems(2) obtain m where n: "n = Suc m" by (cases n) auto
  show ?case
  proof (cases "xs = []")
    case True
    then show ?thesis by (simp add: n skip_ws_def json_ws_def)
  next
    case False
    let ?J = "join_with [44] (map (JSON_stringify r) xs)"
    have "stable_json r (hd xs)" using JArr.prems(1) False by (cases xs) auto
    then have "\<exists>c t. JSON_stringify r (hd xs) = c # t \<and> opener c" by (rule stringify_head)
    then obtain c t where J: "?J = c # t" and c: "opener c"
      using join_head [OF False] by blast
    have each: "parse_value k (JSON_stringify r x @ rest') = Parsed x rest'"
      if "x \<in> set xs" "closes rest'" "length (JSON_stringify r x) \<le> k" for x k rest'
      using JArr.IH [OF that(1)] JArr.prems(1) that by (auto simp: list_all_iff)
    have "length ?J + 1 \<le> m" using JArr.prems(2) by (simp add: n)
    then have "parse_elements m (?J @ 93 # rest) = Parsed xs rest"
      using False each by (intro parse_elements_join) auto
    then have "parse_elements m (c # t @ 93 # rest) = Parsed xs rest"
      by (simp add: J)
    moreover have "JSON_stringify r (JArr xs) @ rest = 91 # c # t @ 93 # rest"
      by (simp add: J)
    ultimately show ?thesis
      using opener_facts [OF c] by (simp add: n skip_ws_def json_ws_def del: JSON_stringify.simps)
  qed
next
  case (JObj kvs)
  from JObj.prems(2) obtain m where n: "n = Suc m" by (cases n) auto
  show ?case
  proof (cases "kvs = []")
    case True
    then show ?thesis by (simp add: n skip_ws_def json_ws_def)
  next
    case False
    let ?J = "join_with [44] (map (member_text (JSON_stringify r)) kvs)"
    obtain c t where J: "?J = c # t" and c: "opener c"
      using join_head [OF False, of "member_text (JSON_stringify r)"] member_text_head by blast
    have each: "parse_value k (JSON_stringify r v @ rest') = Parsed v rest'"
      if "(key, v) \<in> set kvs" "closes rest'" "length (JSON_stringify r v) \<le> k" for key v k rest'
    proof -
      have "stable_json r v" using JObj.prems(1) that(1) by (auto simp: list_all_iff)
      moreover have "v \<in> Basic_BNFs.snds (key, v)" by simp
      ultimately show ?thesis using JObj.IH [OF that(1)] that(2) that(3) by blast
    qed
    have "length ?J + 1 \<le> m" using JObj.prems(2) by (simp add: n stringify_object del: JSON_stringify.simps)
    then have "parse_members m (?J @ 125 # rest) = Parsed kvs rest"
      using False each by (intro parse_members_join) auto
    then have "parse_members m (c # t @ 125 # rest) = Parsed kvs rest"
      by (simp add: J)
    moreover have "JSON_stringify r (JObj kvs) @ rest = 123 # c # t @ 125 # rest"
      by (simp add: J stringify_object del: JSON_stringify.simps)
    moreover have "object_of kvs = JObj kvs"
      using JObj.prems(1) by (intro object_of_distinct) simp
    ultimately show ?thesis
      using opener_facts [OF c] by (simp add: n skip_ws_def json_ws_def del: JSON_stringify.simps)
  qed
qed

lemma JSON_parse_stringify: "stable_json r v \<Longrightarrow> JSON_parse (JSON_stringify r v) = Inr v"
  using parse_stringify [of r v "2 * length (JSON_stringify r v) + 2" "[]"]
  by (simp add: JSON_parse_def skip_ws_def closes_def)

subsection \<open>Header round trip\<close>

lemma parse_encode_stable: "stable_json r v \<Longrightarrow> parsePaymentHeader (encodePaymentHeader r v) = v"
proof -
  assume v: "stable_json r v"
  have wf: "well_formed (JSON_stringify r v)"
    using v by (rule well_formed_stringify)
  have "from_base64 (to_base64 (utf8_encode (JSON_stringify r v))) = utf8_encode (JSON_stringify r v)"
    using wf by (intro from_base64_to_base64 utf8_encode_bytes)
  then show ?thesis
    using v wf by (simp add: parsePaymentHeader_def encodePaymentHeader_def utf8_decode_encode
        JSON_parse_stringify)
qed

lemma parse_encode: "plain_json v \<Longrightarrow> parsePaymentHeader (encodePaymentHeader r v) = v"
  by (rule parse_encode_stable [OF plain_stable])

subsection \<open>The parser always has fuel\<close>

text \<open>
  No parser returns more text than it was given, so a call on \<open>n\<close> characters needs at
  most \<open>2 * n + 2\<close> units of fuel: \<open>JSON_parse\<close> never takes the branch \<open>NoFuel\<close>.
\<close>

lemma skip_ws_length: "length (skip_ws cs) \<le> length cs"
  by (simp add: skip_ws_def length_dropWhile_le)

lemma skip_ws_Cons: "skip_ws cs = c # r \<Longrightarrow> length r < length cs"
  using skip_ws_length [of cs] by simp

lemma string_body_length: "string_body cs = Some (s, rest) \<Longrightarrow> length rest \<le> length cs"
proof (induction cs arbitrary: s rest rule: string_body.induct)
  case 1
  then show ?case by simp
next
  case (2 c cs)
  then show ?case
    by (fastforce simp: cons_fst_def split: if_splits list.splits option.splits)
qed

lemma scan_int_length: "scan_int cs = Some (i, r) \<Longrightarrow> length r \<le> length cs"
  using length_dropWhile_le [of is_digit "tl cs"]
  by (auto simp: scan_int_def split: list.splits if_splits)

lemma scan_frac_length: "scan_frac cs = Some (i, r) \<Longrightarrow> length r \<le> length cs"
  using length_dropWhile_le [of is_digit "tl cs"]
  by (auto simp: scan_frac_def split: list.splits if_splits)

lemma scan_exp_length:
  assumes a: "scan_exp cs = Some (i, r)"
  shows "length r \<le> length cs"
proof (cases cs)
  case Nil
  then show ?thesis using a by (simp add: scan_exp_def)
next
  case (Cons c t)
  show ?thesis
  proof (cases "c = 101 \<or> c = 69")
    case False
    then show ?thesis using a Cons by (simp add: scan_exp_def)
  next
    case True
    define sign where "sign = (if t \<noteq> [] \<and> (hd t = 43 \<or> hd t = 45) then [hd t] else [])"
    have "r = dropWhile is_digit (drop (length sign) t)"
      using a Cons True by (auto simp: scan_exp_def Let_def sign_def split: if_splits)
    moreover have "length (dropWhile is_digit (drop (length sign) t)) \<le> length (drop (length sign) t)"
      by (rule length_dropWhile_le)
    ultimately show ?thesis using Cons by simp
  qed
qed

lemma scan_number_length:
  assumes a: "scan_number cs = Some (l, r)"
  shows "length r \<le> length cs"
proof -
  from a obtain k i r1 f r2 e where
    "scan_int (drop k cs) = Some (i, r1)" "scan_frac r1 = Some (f, r2)" "scan_exp r2 = Some (e, r)"
    by (auto simp: scan_number_def Let_def split: option.splits)
  then have "length r1 \<le> length (drop k cs)" "length r2 \<le> length r1" "length r \<le> length r2"
    by (auto dest: scan_int_length scan_frac_length scan_exp_length)
  then show ?thesis by simp
qed

lemma strip_prefix_length: "strip_prefix p cs = Some r \<Longrightarrow> length r \<le> length cs"
  by (auto simp: strip_prefix_def split: if_splits)

lemma parsed_length:
  "(\<forall>cs v rest. parse_value n cs = Parsed v rest \<longrightarrow> length rest \<le> length cs)
   \<and> (\<forall>cs vs rest. parse_elements n cs = Parsed vs rest \<longrightarrow> length rest \<le> length cs)
   \<and> (\<forall>cs kvs rest. parse_members n cs = Parsed kvs rest \<longrightarrow> length rest \<le> length cs)"
proof (induction n)
  case 0
  show ?case by simp
next
  case (Suc n)
  have V: "length rest \<le> length cs" if "parse_value n cs = Parsed v rest" for cs v rest
    using that Suc by blast
  have E: "length rest \<le> length cs" if "parse_elements n cs = Parsed vs rest" for cs vs rest
    using that Suc by blast
  have M: "length rest \<le> length cs" if "parse_members n cs = Parsed kvs rest" for cs kvs rest
    using that Suc by blast
  have 1: "length rest \<le> length cs" if a: "parse_value (Suc n) cs = Parsed v rest" for cs v rest
  proof (cases "skip_ws cs")
    case Nil
    then show ?thesis using a by simp
  next
    case (Cons c r)
    note r = skip_ws_Cons [OF Cons]
    consider (obj) "c = 123" | (arr) "c \<noteq> 123" "c = 91" | (str) "c \<noteq> 123" "c \<noteq> 91" "c = 34"
      | (num) "c \<noteq> 123" "c \<noteq> 91" "c \<noteq> 34" "c = 45 \<or> is_digit c"
      | (atom) "c \<noteq> 123" "c \<noteq> 91" "c \<noteq> 34" "\<not> (c = 45 \<or> is_digit c)"
      by blast
    then show ?thesis
    proof cases
      case obj
      show ?thesis
      proof (cases "skip_ws r")
        case Nil
        then show ?thesis using a Cons obj by simp
      next
        case inner: (Cons c' r')
        note r' = skip_ws_Cons [OF inner]
        show ?thesis
        proof (cases "c' = 125")
          case True
          then show ?thesis using a Cons obj inner r r' by simp
        next
          case False
          then obtain members where "parse_members n (c' # r') = Parsed members rest"
            using a Cons obj inner by (simp split: parsed.splits)
          from M [OF this] show ?thesis using r r' by simp
        qed
      qed
    next
      case arr
      show ?thesis
      proof (cases "skip_ws r")
        case Nil
        then show ?thesis using a Cons arr by simp
      next
        case inner: (Cons c' r')
        note r' = skip_ws_Cons [OF inner]
        show ?thesis
        proof (cases "c' = 93")
          case True
          then show ?thesis using a Cons arr inner r r' by simp
        next
          case False
          then obtain elements where "parse_elements n (c' # r') = Parsed elements rest"
            using a Cons arr inner by (simp split: parsed.splits)
          from E [OF this] show ?thesis using r r' by simp
        qed
      qed
    next
      case str
      then obtain s where "string_body r = Some (s, rest)"
        using a Cons by (auto split: option.splits prod.splits)
      from string_body_length [OF this] show ?thesis using r by simp
    next
      case num
      then obtain l where "scan_number (c # r) = Some (l, rest)"
        using a Cons by (auto split: option.splits prod.splits)
      from scan_number_length [OF this] show ?thesis using r by simp
    next
      case atom
      then have "strip_prefix (js ''true'') (c # r) = Some rest
                 \<or> strip_prefix (js ''false'') (c # r) = Some rest
                 \<or> strip_prefix (js ''null'') (c # r) = Some rest"
        using a Cons by (auto split: option.splits prod.splits)
      then have "length rest \<le> length (c # r)"
        using strip_prefix_length by blast
      then show ?thesis using r by simp
    qed
  qed
  have 2: "length rest \<le> length cs" if a: "parse_elements (Suc n) cs = Parsed vs rest" for cs vs rest
  proof -
    from a obtain v r where v: "parse_value n cs = Parsed v r"
      by (auto split: parsed.splits)
    note lv = V [OF v]
    from a v obtain c r' where c: "skip_ws r = c # r'"
      by (auto split: list.splits)
    note lr = skip_ws_Cons [OF c]
    show ?thesis
    proof (cases "c = 44")
      case True
      then obtain vs' where "parse_elements n r' = Parsed vs' rest"
        using a v c by (auto split: parsed.splits)
      from E [OF this] show ?thesis using lv lr by simp
    next
      case False
      then have "rest = r'"
        using a v c by (auto split: if_splits)
      then show ?thesis using lv lr by simp
    qed
  qed
  have 3: "length rest \<le> length cs" if a: "parse_members (Suc n) cs = Parsed kvs rest" for cs kvs rest
  proof -
    from a obtain q r where q: "skip_ws cs = q # r"
      by (auto split: list.splits)
    note lq = skip_ws_Cons [OF q]
    from a q have q34: "q = 34"
      by (auto split: if_splits)
    from a q q34 obtain k r1 where k: "string_body r = Some (k, r1)"
      by (auto split: option.splits prod.splits)
    note lk = string_body_length [OF k]
    from a q q34 k obtain colon r2 where colon: "skip_ws r1 = colon # r2"
      by (auto split: list.splits)
    note lc = skip_ws_Cons [OF colon]
    from a q q34 k colon have c58: "colon = 58"
      by (auto split: if_splits)
    from a q q34 k colon c58 obtain v r3 where v: "parse_value n r2 = Parsed v r3"
      by (auto split: parsed.splits)
    note lv = V [OF v]
    from a q q34 k colon c58 v obtain c r4 where c: "skip_ws r3 = c # r4"
      by (auto split: list.splits)
    note l4 = skip_ws_Cons [OF c]
    show ?thesis
    proof (cases "c = 44")
      case True
      then obtain kvs' where "parse_members n r4 = Parsed kvs' rest"
        using a q q34 k colon c58 v c by (auto split: parsed.splits)
      from M [OF this] show ?thesis using lq lk lc lv l4 by simp
    next
      case False
      then have "rest = r4"
        using a q q34 k colon c58 v c by (auto split: if_splits)
      then show ?thesis using lq lk lc lv l4 by simp
    qed
  qed
  show ?case using 1 2 3 by blast
qed

lemma fuel_suffices:
  "(\<forall>cs. 2 * length cs + 1 \<le> n \<longrightarrow> parse_value n cs \<noteq> NoFuel)
   \<and> (\<forall>cs. 2 * length cs + 2 \<le> n \<longrightarrow> parse_elements n cs \<noteq> NoFuel)
   \<and> (\<forall>cs. 2 * length cs + 2 \<le> n \<longrightarrow> parse_members n cs \<noteq> NoFuel)"
proof (induction n)
  case 0
  show ?case by simp
next
  case (Suc n)
  have V: "parse_value n cs \<noteq> NoFuel" if "2 * length cs + 1 \<le> n" for cs
    using that Suc by blast
  have E: "parse_elements n cs \<noteq> NoFuel" if "2 * length cs + 2 \<le> n" for cs
    using that Suc by blast
  have M: "parse_members n cs \<noteq> NoFuel" if "2 * length cs + 2 \<le> n" for cs
    using that Suc by blast
  have 1: "parse_value (Suc n) cs \<noteq> NoFuel" if a: "2 * length cs + 1 \<le> Suc n" for cs
  proof (cases "skip_ws cs")
    case Nil
    then show ?thesis by simp
  next
    case (Cons c r)
    note r = skip_ws_Cons [OF Cons]
    consider (obj) "c = 123" | (arr) "c \<noteq> 123" "c = 91" | (other) "c \<noteq> 123" "c \<noteq> 91"
      by blast
    then show ?thesis
    proof cases
      case obj
      show ?thesis
      proof (cases "skip_ws r")
        case Nil
        then show ?thesis using Cons obj by simp
      next
        case inner: (Cons c' r')
        have "length (c' # r') \<le> length r"
          using skip_ws_length [of r] inner by simp
        then have "2 * length (c' # r') + 2 \<le> n"
          using a r by simp
        then have "parse_members n (c' # r') \<noteq> NoFuel"
          by (rule M)
        then show ?thesis
          using Cons inner obj by (simp split: parsed.splits)
      qed
    next
      case arr
      show ?thesis
      proof (cases "skip_ws r")
        case Nil
        then show ?thesis using Cons arr by simp
      next
        case inner: (Cons c' r')
        have "length (c' # r') \<le> length r"
          using skip_ws_length [of r] inner by simp
        then have "2 * length (c' # r') + 2 \<le> n"
          using a r by simp
        then have "parse_elements n (c' # r') \<noteq> NoFuel"
          by (rule E)
        then show ?thesis
          using Cons inner arr by (simp split: parsed.splits)
      qed
    next
      case other
      then show ?thesis
        using Cons by (auto split: option.splits)
    qed
  qed
  have 2: "parse_elements (Suc n) cs \<noteq> NoFuel" if a: "2 * length cs + 2 \<le> Suc n" for cs
  proof (cases "parse_value n cs")
    case (Parsed v r)
    have lv: "length r \<le> length cs"
      using parsed_length Parsed by blast
    show ?thesis
    proof (cases "skip_ws r")
      case Nil
      then show ?thesis using Parsed by simp
    next
      case (Cons c r')
      have "length r' < length r"
        by (rule skip_ws_Cons [OF Cons])
      then have "2 * length r' + 2 \<le> n"
        using a lv by simp
      then have "parse_elements n r' \<noteq> NoFuel"
        by (rule E)
      then show ?thesis
        using Parsed Cons by (simp split: parsed.splits)
    qed
  next
    case Malformed
    then show ?thesis by simp
  next
    case NoFuel
    moreover have "parse_value n cs \<noteq> NoFuel"
      using a by (intro V) simp
    ultimately show ?thesis by simp
  qed
  have 3: "parse_members (Suc n) cs \<noteq> NoFuel" if a: "2 * length cs + 2 \<le> Suc n" for cs
  proof (cases "skip_ws cs")
    case Nil
    then show ?thesis by simp
  next
    case (Cons q r)
    note lq = skip_ws_Cons [OF Cons]
    show ?thesis
    proof (cases "string_body r")
      case None
      then show ?thesis using Cons by simp
    next
      case (Some kr)
      obtain k r1 where kr: "kr = (k, r1)"
        by (cases kr)
      note lk = string_body_length [OF Some [unfolded kr]]
      show ?thesis
      proof (cases "skip_ws r1")
        case Nil
        then show ?thesis using Cons Some kr by simp
      next
        case colon: (Cons colon r2)
        note lc = skip_ws_Cons [OF colon]
        show ?thesis
        proof (cases "parse_value n r2")
          case (Parsed v r3)
          have lv: "length r3 \<le> length r2"
            using parsed_length Parsed by blast
          show ?thesis
          proof (cases "skip_ws r3")
            case Nil
            then show ?thesis using Cons Some kr colon Parsed by simp
          next
            case last: (Cons c r4)
            have "length r4 < length r3"
              by (rule skip_ws_Cons [OF last])
            then have "2 * length r4 + 2 \<le> n"
              using a lq lk lc lv by simp
            then have "parse_members n r4 \<noteq> NoFuel"
              by (rule M)
            then show ?thesis
              using Cons Some kr colon Parsed last by (simp split: parsed.splits)
          qed
        next
          case Malformed
          then show ?thesis using Cons Some kr colon by simp
        next
          case NoFuel
          moreover have "parse_value n r2 \<noteq> NoFuel"
            using a lq lk lc by (intro V) simp
          ultimately show ?thesis by simp
        qed
      qed
    qed
  qed
  show ?case using 1 2 3 by blast
qed

lemma parse_value_fuel: "parse_value (2 * length text + 2) text \<noteq> NoFuel"
  using fuel_suffices [of "2 * length text + 2"] by simp

section \<open>The payment header codec\<close>

text \<open>
  C9. For every structurally valid payment token \<open>t\<close>, decoding the header that
  \<^verbatim>\<open>encodePaymentHeader\<close> produces for \<open>t\<close> gives back exactly \<open>t\<close>:
  \<^verbatim>\<open>parsePaymentHeader(encodePaymentHeader(t)) == t\<close>.
\<close>

theorem header_round_trip:
  "valid_token r t \<Longrightarrow> parsePaymentHeader (encodePaymentHeader r t) = t"
  by (simp add: valid_token_def parse_encode_stable)

theorem header_round_trip_witness:
  "valid_token plain_runtime native_token
   \<and> parsePaymentHeader (encodePaymentHeader plain_runtime native_token) = native_token
   \<and> valid_token plain_runtime trc20_token
   \<and> parsePaymentHeader (encodePaymentHeader plain_runtime trc20_token) = trc20_token
   \<and> valid_token plain_runtime triple_token
   \<and> parsePaymentHeader (encodePaymentHeader plain_runtime triple_token) = triple_token"
proof -
  have native: "valid_token plain_runtime native_token"
    by code_simp
  have trc20: "valid_token plain_runtime trc20_token"
    by code_simp
  have triple: "valid_token plain_runtime triple_token"
    by code_simp
  show ?thesis
    using native trc20 triple header_round_trip [OF native] header_round_trip [OF trc20]
      header_round_trip [OF triple]
    by blast
qed

text \<open>
  C3, as the claim states it: \<^verbatim>\<open>parsePaymentHeader\<close> returns \<^verbatim>\<open>null\<close> for every header
  that is malformed Base64 or decodes to a structurally incomplete object. It does not:
  \<^verbatim>\<open>e30=\<close> is the Base64 of \<^verbatim>\<open>{}\<close>, and the empty object comes back; it also comes back
  for \<^verbatim>\<open>!e30\<close>, which is not Base64 (the decoder skips the \<^verbatim>\<open>!\<close> and asks for no padding).
\<close>

theorem decode_incomplete_counterexample:
  "parsePaymentHeader (js ''e30='') = JObj [] \<and> parsePaymentHeader (js ''!e30'') = JObj []"
  by code_simp

text \<open>
  C3, amended. \<^verbatim>\<open>parsePaymentHeader\<close> returns \<^verbatim>\<open>null\<close> whenever the decoded text is
  not JSON; when it is JSON, the value it denotes is returned unchanged, whatever its
  shape: every JSON value without numbers, complete token or not, survives encoding and
  decoding.
\<close>

theorem decode_returns_parsed_value:
  "(JSON_parse (utf8_decode (from_base64 h)) = Inl e \<longrightarrow> parsePaymentHeader h = JNull)
   \<and> (JSON_parse (utf8_decode (from_base64 h)) = Inr v \<longrightarrow> parsePaymentHeader h = v)
   \<and> (plain_json w \<longrightarrow> parsePaymentHeader (encodePaymentHeader r w) = w)"
proof (intro conjI impI)
  assume "JSON_parse (utf8_decode (from_base64 h)) = Inl e"
  then show "parsePaymentHeader h = JNull" by (simp add: parsePaymentHeader_def)
next
  assume "JSON_parse (utf8_decode (from_base64 h)) = Inr v"
  then show "parsePaymentHeader h = v" by (simp add: parsePaymentHeader_def)
next
  assume "plain_json w"
  then show "parsePaymentHeader (encodePaymentHeader r w) = w" by (rule parse_encode)
qed

theorem decode_returns_parsed_value_witness:
  "JSON_parse (utf8_decode (from_base64 (js ''ew==''))) = Inl (ErrorObj SyntaxError (js ''Unexpected token in JSON''))
   \<and> parsePaymentHeader (js ''ew=='') = JNull
   \<and> JSON_parse (utf8_decode (from_base64 (js ''e30=''))) = Inr (JObj [])
   \<and> parsePaymentHeader (js ''e30='') = JObj []
   \<and> plain_json (JObj [(js ''scheme'', JStr (js ''tron-transfer''))])
   \<and> parsePaymentHeader (encodePaymentHeader plain_runtime (JObj [(js ''scheme'', JStr (js ''tron-transfer''))]))
       = JObj [(js ''scheme'', JStr (js ''tron-transfer''))]"
proof -
  have 1: "JSON_parse (utf8_decode (from_base64 (js ''ew==''))) = Inl (ErrorObj SyntaxError (js ''Unexpected token in JSON''))"
    by code_simp
  have 2: "JSON_parse (utf8_decode (from_base64 (js ''e30=''))) = Inr (JObj [])"
    by code_simp
  have 3: "plain_json (JObj [(js ''scheme'', JStr (js ''tron-transfer''))])"
    by code_simp
  have a: "parsePaymentHeader (js ''ew=='') = JNull"
    using 1 decode_returns_parsed_value by blast
  have b: "parsePaymentHeader (js ''e30='') = JObj []"
    using 2 decode_returns_parsed_value by blast
  have c: "parsePaymentHeader (encodePaymentHeader plain_runtime (JObj [(js ''scheme'', JStr (js ''tron-transfer''))]))
       = JObj [(js ''scheme'', JStr (js ''tron-transfer''))]"
    using 3 decode_returns_parsed_value by blast
  show ?thesis
    using 1 2 3 a b c by blast
qed

section \<open>Verification\<close>

subsection \<open>The sample requests decoded\<close>

lemma get_truthy: "truthy r (Some t) \<Longrightarrow> \<exists>v. get (Some t) k = Inr v"
  by (cases t) (simp_all add: get_def truthy_def)

lemma get_Some_truthy: "get (Some t) k = Inr (Some x) \<Longrightarrow> truthy r (Some t)"
  by (cases t) (simp_all add: get_def truthy_def)

lemma and_then_Inr [simp]: "and_then (Inr x) f = f x"
  by (simp add: and_then_def)

lemma and_then_Inl [simp]: "and_then (Inl e) f = Inl e"
  by (simp add: and_then_def)

lemma plain_exact: "plain_json exact_one" "plain_json exact_two"
  by code_simp+

lemma parse_exact:
  "parsePaymentHeader (paymentHeader request_one) = exact_one"
  "parsePaymentHeader (paymentHeader request_two) = exact_two"
  "parsePaymentHeader (paymentHeader mismatch_request) = exact_one"
  using parse_encode [OF plain_exact(1)] parse_encode [OF plain_exact(2)]
  by (simp_all add: request_one_def request_two_def mismatch_request_def request_of_def)

lemma exact_fields:
  "get (Some exact_one) ''scheme'' = Inr (Some (JStr (js ''exact'')))"
  "get (Some exact_two) ''scheme'' = Inr (Some (JStr (js ''exact'')))"
  "get (Some exact_one) ''network'' = get (Some exact_two) ''network''"
  "get (Some exact_one) ''payload'' = get (Some exact_two) ''payload''"
  by code_simp+

lemma plain_transfer_token: "plain_json transfer_token"
  by code_simp

lemma parse_transfer_request:
  "parsePaymentHeader (paymentHeader transfer_request) = transfer_token"
  using parse_encode [OF plain_transfer_token] by (simp add: transfer_request_def request_of_def)

subsection \<open>The scheme check comes first\<close>

text \<open>
  When the token's scheme is not the required one, \<^verbatim>\<open>verify\<close> ends at the scheme check:
  its result is the mismatch message that prints the token's scheme, or the exception of
  that printing. Nothing else of token and requirements is read.
\<close>

theorem verify_scheme_mismatch:
  assumes "truthy (rt env) (Some (parsePaymentHeader (paymentHeader request)))"
    and "get (Some (parsePaymentHeader (paymentHeader request))) ''scheme'' \<noteq> Inr (Some (JStr (scheme (paymentRequirements request))))"
  shows "\<exists>got. get (Some (parsePaymentHeader (paymentHeader request))) ''scheme'' = Inr got
           \<and> verify env request
               = (case to_string (rt env) got of
                    Inr shown \<Rightarrow>
                      Inr (invalid (Some (js ''Scheme mismatch: expected '' @ scheme (paymentRequirements request)
                                          @ js '', got '' @ shown)))
                  | Inl e \<Rightarrow> Inl e)"
proof -
  obtain got where got: "get (Some (parsePaymentHeader (paymentHeader request))) ''scheme'' = Inr got"
    using get_truthy [OF assms(1)] by blast
  then have "got \<noteq> Some (JStr (scheme (paymentRequirements request)))"
    using assms(2) by auto
  then have "verify env request
             = (case to_string (rt env) got of
                  Inr shown \<Rightarrow>
                    Inr (invalid (Some (js ''Scheme mismatch: expected '' @ scheme (paymentRequirements request)
                                        @ js '', got '' @ shown)))
                | Inl e \<Rightarrow> Inl e)"
    using assms(1) got by (simp add: verify_def Let_def and_then_def split: sum.splits)
  then show ?thesis using got by blast
qed

theorem verify_scheme_mismatch_witness:
  "verify test_env mismatch_request
   = Inr (invalid (Some (js ''Scheme mismatch: expected '' @ js ''tron-transfer'' @ js '', got '' @ js ''exact'')))"
proof -
  have t: "truthy (rt test_env) (Some (parsePaymentHeader (paymentHeader mismatch_request)))"
    using exact_fields(1) by (simp add: parse_exact get_Some_truthy)
  have s: "scheme (paymentRequirements mismatch_request) = js ''tron-transfer''"
    by (simp add: mismatch_request_def request_of_def)
  have ne: "js ''exact'' \<noteq> js ''tron-transfer''"
    by (simp add: js_def)
  have "get (Some (parsePaymentHeader (paymentHeader mismatch_request))) ''scheme''
        \<noteq> Inr (Some (JStr (scheme (paymentRequirements mismatch_request))))"
    using ne by (simp add: parse_exact exact_fields s)
  from verify_scheme_mismatch [OF t this]
  obtain got where "get (Some (parsePaymentHeader (paymentHeader mismatch_request))) ''scheme'' = Inr got"
    and v: "verify test_env mismatch_request
       = (case to_string (rt test_env) got of
            Inr shown \<Rightarrow>
              Inr (invalid (Some (js ''Scheme mismatch: expected '' @ scheme (paymentRequirements mismatch_request)
                                  @ js '', got '' @ shown)))
          | Inl e \<Rightarrow> Inl e)"
    by blast
  then have "got = Some (JStr (js ''exact''))"
    by (simp add: parse_exact exact_fields)
  then show ?thesis
    using v by (simp add: s to_string_def)
qed

text \<open>
  C6. For all requirements \<open>R\<close> and every token \<open>T\<close> that decodes successfully: when
  \<open>T.scheme\<close> is not \<open>R.scheme\<close>, \<^verbatim>\<open>verify\<close> returns \<^verbatim>\<open>isValid: false\<close> with the reason
  \<^verbatim>\<open>Scheme mismatch: expected X, got Y\<close>, whatever the other fields of token and
  requirements are. In the source the reason is a template literal, which converts
  \<open>T.scheme\<close> to a string, outside every \<^verbatim>\<open>try\<close>: the header
  \<^verbatim>\<open>eyJzY2hlbWUiOnsidG9TdHJpbmciOm51bGx9fQ==\<close> decodes to the token
  \<^verbatim>\<open>{"scheme":{"toString":null}}\<close>, whose scheme has no string, and \<^verbatim>\<open>verify\<close> rejects with a
  TypeError where the mismatch result is due.
\<close>

theorem scheme_mismatch_rejects:
  "parsePaymentHeader (paymentHeader unprintable_request)
     = JObj [(js ''scheme'', JObj [(js ''toString'', JNull)])]
   \<and> get (Some (parsePaymentHeader (paymentHeader unprintable_request))) ''scheme''
     \<noteq> Inr (Some (JStr (scheme (paymentRequirements unprintable_request))))
   \<and> verify test_env unprintable_request
     = Inl (ErrorObj TypeError (js ''Cannot convert object to primitive value''))"
  by code_simp

subsection \<open>Every invalid result has a reason\<close>

lemma signature_chain:
  "and_then (buildSignatureMessage env payload) (\<lambda>message.
   and_then (toHex (tronWeb env) message) (\<lambda>messageHex.
   and_then (get signature ''signature'') (\<lambda>signature_signature.
   and_then (verifyMessage (tronWeb env) messageHex signature_signature) (\<lambda>recoveredAddress.
   and_then (to_string (rt env) recoveredAddress) (\<lambda>recovered.
   and_then (normalizeAddress env (Some (JStr recovered))) (\<lambda>normalizedRecovered.
   and_then (get payload ''from'') (\<lambda>p_from.
   and_then (normalizeAddress env p_from) (\<lambda>normalizedFrom.
     if normalizedRecovered \<noteq> normalizedFrom
     then and_then (to_string (rt env) p_from) (\<lambda>expected.
            Inr (False, Some (reason recovered expected)))
     else Inr (True, None))))))))) = Inr r
   \<Longrightarrow> r = (True, None) \<or> (\<exists>m. r = (False, Some m))"
  by (auto simp: and_then_def split: sum.splits if_splits)

lemma verifyTronSignature_reason:
  "\<not> fst (verifyTronSignature env payload signature)
   \<Longrightarrow> \<exists>m. snd (verifyTronSignature env payload signature) = Some m"
  unfolding verifyTronSignature_def
  by (auto split: sum.splits dest: signature_chain)

lemma verify_invalid_reason:
  assumes "verify env request = Inr v" "\<not> isValid v"
  shows "\<exists>m. invalidReason v = Some m"
  using assms verifyTronSignature_reason [of env]
  by (auto simp: verify_def Let_def and_then_def invalid_def split: sum.splits if_splits)

subsection \<open>Schemes other than \<^verbatim>\<open>tron-transfer\<close>\<close>

text \<open>
  When the scheme of token and requirements is not \<^verbatim>\<open>tron-transfer\<close>, the result of
  \<^verbatim>\<open>verify\<close> is a function of the token's network and payload: the signature is not read.
\<close>

lemma without_echo_and_then:
  "without_echo (and_then m f) = and_then m (\<lambda>x. without_echo (f x))"
  by (cases m) (simp_all add: without_echo_def and_then_def)

lemma without_echo_if:
  "without_echo (if b then x else y) = (if b then without_echo x else without_echo y)"
  by simp

lemma without_echo_Inr: "without_echo (Inr v) = Inr (v\<lparr>paymentToken := None\<rparr>)"
  by (simp add: without_echo_def)

lemma verify_unsigned:
  assumes "get (Some (parsePaymentHeader h)) ''scheme'' = Inr (Some (JStr (scheme R)))"
    and "scheme R \<noteq> js ''tron-transfer''"
    and "get (Some (parsePaymentHeader h)) ''network'' = Inr n"
    and "get (Some (parsePaymentHeader h)) ''payload'' = Inr payload"
  shows "without_echo (verify env \<lparr>paymentHeader = h, paymentRequirements = R\<rparr>)
         = (if n \<noteq> Some (JStr (network R))
            then and_then (to_string (rt env) n) (\<lambda>got.
                   Inr (invalid (Some (js ''Network mismatch: expected '' @ network R
                                       @ js '', got '' @ got))))
            else
            and_then (get payload ''value'') (\<lambda>p_value.
            and_then (BigInt (rt env) p_value) (\<lambda>paymentAmount.
            and_then (BigInt (rt env) (Some (JStr (maxAmountRequired R)))) (\<lambda>requiredAmount.
            if paymentAmount < requiredAmount
            then Inr (invalid (Some (js ''Insufficient payment: required '' @ bigint_to_string requiredAmount
                                     @ js '', got '' @ bigint_to_string paymentAmount)))
            else
            and_then (get payload ''to'') (\<lambda>p_to.
            and_then (normalizeAddress env p_to) (\<lambda>normalizedPayloadTo.
            and_then (normalizeAddress env (Some (JStr (payTo R)))) (\<lambda>normalizedRequiredTo.
            if normalizedPayloadTo \<noteq> normalizedRequiredTo
            then and_then (to_string (rt env) p_to) (\<lambda>got.
                   Inr (invalid (Some (js ''Recipient mismatch: expected '' @ payTo R
                                       @ js '', got '' @ got))))
            else
            and_then (get payload ''validAfter'') (\<lambda>p_validAfter.
            and_then (parseInt (rt env) p_validAfter) (\<lambda>validAfter.
            and_then (get payload ''validBefore'') (\<lambda>p_validBefore.
            and_then (parseInt (rt env) p_validBefore) (\<lambda>validBefore.
            if int_less (now_ms env div 1000) validAfter
            then Inr (invalid (Some (js ''Payment not yet valid: validAfter ''
                                     @ number_to_string (rt env) validAfter
                                     @ js '', current time '' @ bigint_to_string (now_ms env div 1000))))
            else if int_ge (now_ms env div 1000) validBefore
            then Inr (invalid (Some (js ''Payment expired: validBefore ''
                                     @ number_to_string (rt env) validBefore
                                     @ js '', current time '' @ bigint_to_string (now_ms env div 1000))))
            else
            and_then (get payload ''from'') (\<lambda>p_from.
              Inr \<lparr>isValid = True, invalidReason = None, payer = p_from, paymentToken = None\<rparr>
            ))))))))))))"
proof -
  have t: "truthy (rt env) (Some (parsePaymentHeader h))"
    using assms(1) by (rule get_Some_truthy)
  obtain s where s: "get (Some (parsePaymentHeader h)) ''signature'' = Inr s"
    using get_truthy [OF t] by blast
  show ?thesis
    using assms t s
    by (simp add: verify_def Let_def without_echo_and_then without_echo_Inr without_echo_if invalid_def
             cong: if_cong)
qed

lemma request_eta: "\<lparr>paymentHeader = paymentHeader r, paymentRequirements = paymentRequirements r\<rparr> = r"
  by simp

text \<open>
  C10, as the claim states it: two calls of \<^verbatim>\<open>verify\<close> whose tokens differ in the signature
  only return identical results. They do not when the token is valid: the result echoes
  the token it was given, signature included.
\<close>

theorem identical_results_counterexample:
  "verify test_env request_one \<noteq> verify test_env request_two"
proof -
  have 1: "verify test_env request_one
           = Inr \<lparr>isValid = True, invalidReason = None, payer = Some (JStr (js ''41aa'')),
                  paymentToken = Some exact_one\<rparr>"
    by code_simp
  have 2: "verify test_env request_two
           = Inr \<lparr>isValid = True, invalidReason = None, payer = Some (JStr (js ''41aa'')),
                  paymentToken = Some exact_two\<rparr>"
    by code_simp
  have d: "exact_one \<noteq> exact_two"
    by code_simp
  show ?thesis using d by (simp add: 1 2)
qed

text \<open>
  C10, amended. For every token whose scheme equals the requirements' scheme and is not
  \<^verbatim>\<open>tron-transfer\<close>, \<^verbatim>\<open>verify\<close> checks no signature: two calls whose tokens differ in the
  signature only agree on \<^verbatim>\<open>isValid\<close>, \<^verbatim>\<open>invalidReason\<close> and \<^verbatim>\<open>payer\<close> (and on the exception,
  when one is thrown); the echoed \<^verbatim>\<open>paymentToken\<close> is each call's own token.
\<close>

theorem unsigned_scheme_ignores_signature:
  assumes "paymentRequirements r1 = paymentRequirements r2"
    and "get (Some (parsePaymentHeader (paymentHeader r1))) ''scheme''
         = Inr (Some (JStr (scheme (paymentRequirements r1))))"
    and "get (Some (parsePaymentHeader (paymentHeader r2))) ''scheme''
         = Inr (Some (JStr (scheme (paymentRequirements r1))))"
    and "scheme (paymentRequirements r1) \<noteq> js ''tron-transfer''"
    and "get (Some (parsePaymentHeader (paymentHeader r1))) ''network''
         = get (Some (parsePaymentHeader (paymentHeader r2))) ''network''"
    and "get (Some (parsePaymentHeader (paymentHeader r1))) ''payload''
         = get (Some (parsePaymentHeader (paymentHeader r2))) ''payload''"
  shows "without_echo (verify env r1) = without_echo (verify env r2)"
proof -
  have t1: "truthy (rt env) (Some (parsePaymentHeader (paymentHeader r1)))"
    using assms(2) by (rule get_Some_truthy)
  obtain n where n: "get (Some (parsePaymentHeader (paymentHeader r1))) ''network'' = Inr n"
    using get_truthy [OF t1] by blast
  obtain p where p: "get (Some (parsePaymentHeader (paymentHeader r1))) ''payload'' = Inr p"
    using get_truthy [OF t1] by blast
  have n2: "get (Some (parsePaymentHeader (paymentHeader r2))) ''network'' = Inr n"
    using n assms(5) by simp
  have p2: "get (Some (parsePaymentHeader (paymentHeader r2))) ''payload'' = Inr p"
    using p assms(6) by simp
  have "without_echo (verify env \<lparr>paymentHeader = paymentHeader r1, paymentRequirements = paymentRequirements r1\<rparr>)
        = without_echo (verify env \<lparr>paymentHeader = paymentHeader r2, paymentRequirements = paymentRequirements r1\<rparr>)"
    by (simp only: verify_unsigned [OF assms(2) assms(4) n p] verify_unsigned [OF assms(3) assms(4) n2 p2])
  then show ?thesis
    by (simp only: assms(1) request_eta) (simp only: assms(1) [symmetric] request_eta)
qed

theorem unsigned_scheme_ignores_signature_witness:
  "exact_one \<noteq> exact_two
   \<and> without_echo (verify test_env request_one) = without_echo (verify test_env request_two)"
proof -
  have r: "paymentRequirements request_one = paymentRequirements request_two"
    by (simp add: request_one_def request_two_def request_of_def)
  have s: "scheme (paymentRequirements request_one) = js ''exact''"
    by (simp add: request_one_def request_of_def)
  have ne: "js ''exact'' \<noteq> js ''tron-transfer''"
    by (simp add: js_def)
  have d: "exact_one \<noteq> exact_two"
    by code_simp
  have h2: "get (Some (parsePaymentHeader (paymentHeader request_one))) ''scheme''
         = Inr (Some (JStr (scheme (paymentRequirements request_one))))"
    by (simp add: parse_exact exact_fields s)
  have h3: "get (Some (parsePaymentHeader (paymentHeader request_two))) ''scheme''
         = Inr (Some (JStr (scheme (paymentRequirements request_one))))"
    by (simp add: parse_exact exact_fields s)
  have h4: "scheme (paymentRequirements request_one) \<noteq> js ''tron-transfer''"
    using ne by (simp add: s)
  have h5: "get (Some (parsePaymentHeader (paymentHeader request_one))) ''network''
         = get (Some (parsePaymentHeader (paymentHeader request_two))) ''network''"
    by (simp add: parse_exact exact_fields)
  have h6: "get (Some (parsePaymentHeader (paymentHeader request_one))) ''payload''
         = get (Some (parsePaymentHeader (paymentHeader request_two))) ''payload''"
    by (simp add: parse_exact exact_fields)
  have "without_echo (verify test_env request_one) = without_echo (verify test_env request_two)"
    by (rule unsigned_scheme_ignores_signature [OF r h2 h3 h4 h5 h6])
  then show ?thesis using d by blast
qed

subsection \<open>Amounts\<close>

text \<open>
  C2. \<^verbatim>\<open>verify\<close> never raises: a header that decodes to JSON whose payload has no
  \<^verbatim>\<open>value\<close>, or a \<^verbatim>\<open>value\<close> that is not an integer, still gives an invalid result with a
  reason. In the source \<^verbatim>\<open>BigInt(payload.value)\<close> stands outside every \<^verbatim>\<open>try\<close>: on the
  token \<^verbatim>\<open>{"scheme":"exact","network":"tron-shasta","payload":{}}\<close> it throws a TypeError,
  and on the payload \<^verbatim>\<open>{"value":"12.5"}\<close> a SyntaxError, and \<^verbatim>\<open>verify\<close> rejects.
\<close>

theorem verify_throws_on_bad_amount:
  "verify test_env
     \<lparr>paymentHeader = js ''eyJzY2hlbWUiOiJleGFjdCIsIm5ldHdvcmsiOiJ0cm9uLXNoYXN0YSIsInBheWxvYWQiOnt9fQ=='',
      paymentRequirements = exact_requirements\<rparr>
   = Inl (ErrorObj TypeError (js ''Cannot convert undefined to a BigInt''))
   \<and> verify test_env
     \<lparr>paymentHeader = js ''eyJzY2hlbWUiOiJleGFjdCIsIm5ldHdvcmsiOiJ0cm9uLXNoYXN0YSIsInBheWxvYWQiOnsidmFsdWUiOiIxMi41In19'',
      paymentRequirements = exact_requirements\<rparr>
   = Inl (ErrorObj SyntaxError (js ''Cannot convert 12.5 to a BigInt''))"
  by code_simp

text \<open>
  The comparison itself is exact: an amount equal to the required one is sufficient, one
  less is not, and neither is \<^verbatim>\<open>2^53\<close> against \<^verbatim>\<open>2^53 + 1\<close>, which are the same double.
\<close>

theorem verify_amount_boundary:
  "(\<exists>v. verify test_env (amount_request ''1000'' ''1000'') = Inr v \<and> isValid v)
   \<and> verify test_env (amount_request ''999'' ''1000'')
       = Inr (invalid (Some (js ''Insufficient payment: required 1000, got 999'')))
   \<and> verify test_env (amount_request ''9007199254740992'' ''9007199254740993'')
       = Inr (invalid (Some (js ''Insufficient payment: required 9007199254740993, got 9007199254740992'')))"
proof -
  have 1: "verify test_env (amount_request ''1000'' ''1000'')
           = Inr \<lparr>isValid = True, invalidReason = None, payer = Some (JStr (js ''41aa'')),
                  paymentToken = Some (token_of ''exact'' (payload_of ''41bb'' ''1000'') ''none'')\<rparr>"
    by code_simp
  have 2: "verify test_env (amount_request ''999'' ''1000'')
       = Inr (invalid (Some (js ''Insufficient payment: required 1000, got 999'')))"
    by code_simp
  have 3: "verify test_env (amount_request ''9007199254740992'' ''9007199254740993'')
       = Inr (invalid (Some (js ''Insufficient payment: required 9007199254740993, got 9007199254740992'')))"
    by code_simp
  show ?thesis using 2 3 by (simp add: 1)
qed

subsection \<open>Addresses\<close>

text \<open>\<^verbatim>\<open>normalizeAddress\<close> returns on every string, whatever the client does.\<close>

theorem normalizeAddress_total:
  "\<exists>h. normalizeAddress env (Some (JStr s)) = Inr h"
  by (simp add: normalizeAddress_def split: sum.splits)

text \<open>
  C5. Every accepted encoding of an address is normalized to one canonical form, so that
  \<^verbatim>\<open>to\<close> and \<^verbatim>\<open>payTo\<close> match when they write the same address differently. The source
  lower-cases what does not start with \<^verbatim>\<open>T\<close>, so the hex forms its own comment accepts
  (``with or without 0x/41 prefix'') stay apart: \<^verbatim>\<open>0x8840...\<close> does not match \<^verbatim>\<open>418840...\<close>.
\<close>

theorem prefixed_hex_recipient_rejected:
  "verify test_env prefixed_request
   = Inr (invalid (Some (js ''Recipient mismatch: expected 418840e6c55b9ada326d211d818c34a994aeced808, got 0x8840e6c55b9ada326d211d818c34a994aeced808'')))"
  by code_simp

section \<open>Settlement\<close>

subsection \<open>Verification before submission\<close>

lemma step_events: "fst (step events m f) = events @ (case m of Inl e \<Rightarrow> [] | Inr x \<Rightarrow> fst (f x))"
  by (simp add: step_def split: sum.splits prod.splits)

text \<open>
  C1. \<^verbatim>\<open>settle\<close> submits a transfer, by contract or native, only if \<^verbatim>\<open>verify\<close> on the same
  request returns \<^verbatim>\<open>isValid: true\<close>. When the verification that \<^verbatim>\<open>settle\<close> runs returns
  \<^verbatim>\<open>isValid: false\<close>, \<^verbatim>\<open>settle\<close> returns \<^verbatim>\<open>success: false\<close> with the error
  \<^verbatim>\<open>Verification failed: <reason>\<close> and submits nothing; and whenever \<^verbatim>\<open>verify\<close> on the
  request is invalid, \<^verbatim>\<open>settle\<close> fails without a submission. Nothing of an earlier
  call is kept: \<^verbatim>\<open>settle\<close> is a function of the request and the world at the time of
  the call.
\<close>

theorem settle_reverifies:
  "(list_ex is_submission (fst (settle env request))
      \<longrightarrow> (\<exists>v. verify env request = Inr v \<and> isValid v))
   \<and> (wallet_configured env
        \<and> truthy (rt env) (Some (parsePaymentHeader (paymentHeader request)))
        \<and> verify env request = Inr v \<and> \<not> isValid v
      \<longrightarrow> (\<exists>reason. invalidReason v = Some reason
            \<and> settle env request
                = ([], Inr (failure (network (paymentRequirements request)) None
                             (js ''Verification failed: '' @ reason)))))
   \<and> (verify env request = Inr v \<and> \<not> isValid v
      \<longrightarrow> (\<exists>message. settle env request
                = ([], Inr (failure (network (paymentRequirements request)) None message))))"
proof (intro conjI impI)
  assume "list_ex is_submission (fst (settle env request))"
  then show "\<exists>v. verify env request = Inr v \<and> isValid v"
    by (auto simp: settle_def Let_def split: if_splits sum.splits prod.splits)
next
  assume a: "wallet_configured env
        \<and> truthy (rt env) (Some (parsePaymentHeader (paymentHeader request)))
        \<and> verify env request = Inr v \<and> \<not> isValid v"
  then obtain reason where r: "invalidReason v = Some reason"
    using verify_invalid_reason by blast
  have "settle env request
        = ([], Inr (failure (network (paymentRequirements request)) None
                     (js ''Verification failed: '' @ reason)))"
    using a r by (simp add: settle_def Let_def)
  then show "\<exists>reason. invalidReason v = Some reason
            \<and> settle env request
                = ([], Inr (failure (network (paymentRequirements request)) None
                             (js ''Verification failed: '' @ reason)))"
    using r by blast
next
  assume a: "verify env request = Inr v \<and> \<not> isValid v"
  then obtain reason where r: "invalidReason v = Some reason"
    using verify_invalid_reason by blast
  show "\<exists>message. settle env request
                = ([], Inr (failure (network (paymentRequirements request)) None message))"
    using a r by (auto simp add: settle_def Let_def)
qed

theorem settle_reverifies_witness:
  "verify test_env transfer_request
     = Inr \<lparr>isValid = True, invalidReason = None, payer = Some (JStr (js ''41aa'')),
            paymentToken = Some transfer_token\<rparr>
   \<and> verify late_env transfer_request
     = Inr (invalid (Some (js ''Payment expired: validBefore 2000000000, current time 2000000000'')))
   \<and> settle late_env transfer_request
     = ([], Inr (failure (js ''tron-shasta'') None
          (js ''Verification failed: '' @ js ''Payment expired: validBefore 2000000000, current time 2000000000'')))"
proof -
  have earlier: "verify test_env transfer_request
     = Inr \<lparr>isValid = True, invalidReason = None, payer = Some (JStr (js ''41aa'')),
            paymentToken = Some transfer_token\<rparr>"
    by code_simp
  have later: "verify late_env transfer_request
     = Inr (invalid (Some (js ''Payment expired: validBefore 2000000000, current time 2000000000'')))"
    by code_simp
  have wallet: "wallet_configured late_env"
    by (simp add: late_env_def test_env_def)
  have decoded: "truthy (rt late_env) (Some (parsePaymentHeader (paymentHeader transfer_request)))"
    by (simp add: parse_transfer_request transfer_token_def token_of_def truthy_def)
  have net: "network (paymentRequirements transfer_request) = js ''tron-shasta''"
    by (simp add: transfer_request_def request_of_def)
  have "\<not> isValid (invalid (Some (js ''Payment expired: validBefore 2000000000, current time 2000000000'')))"
    by (simp add: invalid_def)
  then obtain reason where
    "invalidReason (invalid (Some (js ''Payment expired: validBefore 2000000000, current time 2000000000''))) = Some reason"
    "settle late_env transfer_request
       = ([], Inr (failure (network (paymentRequirements transfer_request)) None (js ''Verification failed: '' @ reason)))"
    using settle_reverifies [of late_env transfer_request] wallet decoded later by blast
  then have "settle late_env transfer_request
     = ([], Inr (failure (js ''tron-shasta'') None
          (js ''Verification failed: '' @ js ''Payment expired: validBefore 2000000000, current time 2000000000'')))"
    by (simp add: invalid_def net)
  then show ?thesis using earlier later by blast
qed

subsection \<open>The confirmation loop of a token transfer\<close>

declare poll_receipt.simps [simp del] poll_info.simps [simp del]















subsection \<open>After the submission\<close>

text \<open>
  C7. Every result produced after a submission carries the transaction id, also when an
  error is raised while polling. In the source \<^verbatim>\<open>executeTRC20Settlement\<close> rethrows that
  error and the \<^verbatim>\<open>catch\<close> of \<^verbatim>\<open>settle\<close> builds a result without \<^verbatim>\<open>transactionHash\<close>.
\<close>

theorem poll_error_drops_transaction_hash:
  "settle broken_poll_env trc20_request
   = (submitted @ [Delay 2000, GetTransactionInfo (Some (JStr (js ''tx-trc20''))) 0],
      Inr \<lparr>success = False, transactionHash = None, network' = js ''tron-shasta'',
            settledAmount = None, error = Some (js ''socket hang up'')\<rparr>)"
  by code_simp

text \<open>
  C4. The amount is read as an integer of arbitrary precision wherever it is used. The
  native path submits \<^verbatim>\<open>parseInt(payload.value, 10)\<close>, a double: of \<^verbatim>\<open>2^53 + 1\<close> it sends
  \<^verbatim>\<open>2^53\<close>, and reports the amount of the payload as settled.
\<close>

theorem native_settlement_rounds_amount:
  "settle confirming_env native_big_request
   = ([SendTransaction (Some (JStr (js ''41bb''))) (Fin 9007199254740992),
       Delay 2000, GetTransactionInfo (Some (JStr (js ''tx-trx''))) 0],
      Inr \<lparr>success = True, transactionHash = Some (JStr (js ''tx-trx'')), network' = js ''tron-shasta'',
            settledAmount = Some (JStr (js ''9007199254740993'')), error = None\<rparr>)"
  by code_simp

end
